theory Spec2Isabelle
  imports Complex_Main
begin

section \<open>Values and failures\<close>

text \<open>
  The service works on the JSON document that the Aptoide search API returns, which
  Python holds as nested dicts, lists, strings, integers, booleans and \<open>None\<close>.
  An object is an association list that stands for the Python dict: a lookup finds the
  value of a key as \<open>map_of\<close> does. Characters are the code points 0 to 255.
  JSON numbers with a fraction or an exponent are not part of this model: the
  numeric fields of the service (\<open>size\<close> and \<open>downloads\<close>) are integer counts.
\<close>

datatype json =
    JNull
  | JBool bool
  | JInt int
  | JStr string
  | JArr "json list"
  | JObj "(string \<times> json) list"

text \<open>
  Every way in which the Python code stops without a value is a constructor here.
  \<open>HTTPException\<close> carries the status code and the detail of the source.
  \<open>OutsideModel\<close> marks the two places where the program hands a value to a library
  routine whose result this development does not describe: \<open>float\<close> applied to a
  non-empty string, and a response field that is a number or a boolean where the
  response model declares an optional string.
\<close>

datatype py_error =
    HTTPException nat string
  | AttributeError
  | TypeError
  | KeyError
  | IndexError
  | OverflowError
  | JSONDecodeError
  | ValidationError
  | OutsideModel

definition bindE :: "py_error + 'a \<Rightarrow> ('a \<Rightarrow> py_error + 'b) \<Rightarrow> py_error + 'b" where
  "bindE m f = (case m of Inl e \<Rightarrow> Inl e | Inr v \<Rightarrow> f v)"

text \<open>Python truth value of a JSON value, as \<open>not x\<close> tests it.\<close>

fun truthy :: "json \<Rightarrow> bool" where
  "truthy JNull = False"
| "truthy (JBool b) = b"
| "truthy (JInt n) = (n \<noteq> 0)"
| "truthy (JStr s) = (s \<noteq> [])"
| "truthy (JArr xs) = (xs \<noteq> [])"
| "truthy (JObj kvs) = (kvs \<noteq> [])"

text \<open>\<open>d.get(key, default)\<close>: only a dict has the method.\<close>

fun dict_get :: "json \<Rightarrow> string \<Rightarrow> json \<Rightarrow> py_error + json" where
  "dict_get (JObj kvs) k dflt = Inr (case map_of kvs k of None \<Rightarrow> dflt | Some v \<Rightarrow> v)"
| "dict_get _ k dflt = Inl AttributeError"

section \<open>Decimal strings\<close>

text \<open>
  The decimal digits of a non-negative integer, most significant first. Integers are
  kept as \<open>int\<close> throughout, as Python has them.
\<close>

definition digit_char :: "int \<Rightarrow> char" where
  "digit_char d = ''0123456789'' ! nat (d mod 10)"

function str_digits :: "int \<Rightarrow> string" where
  "str_digits n =
     (if n < 10 then [digit_char n] else str_digits (n div 10) @ [digit_char (n mod 10)])"
  by pat_completeness auto
termination
  by (relation "measure nat") auto

declare str_digits.simps [simp del]

text \<open>\<open>str(n)\<close> of a Python integer.\<close>

definition str_int :: "int \<Rightarrow> string" where
  "str_int i = (if i < 0 then CHR ''-'' # str_digits (- i) else str_digits i)"

section \<open>Python floats\<close>

text \<open>
  A finite Python float is an IEEE 754 binary64 number, kept here as the rational it
  denotes. Converting an integer, dividing two integers and dividing two floats all
  return the double nearest to the exact result, ties going to the even mantissa;
  \<open>round_to_double\<close> is that rounding, with 53 bits of mantissa and the exponent
  bounded below as the format bounds it (at \<open>2 ^ -1022\<close>, the subnormal range).
\<close>

definition round_half_even :: "rat \<Rightarrow> int" where
  "round_half_even x =
     (let f = \<lfloor>x\<rfloor>; r = x - of_int f
      in if r < 1 / 2 then f
         else if 1 / 2 < r then f + 1
         else if even f then f else f + 1)"

function floor_log2 :: "int \<Rightarrow> int" where
  "floor_log2 n = (if n < 2 then 0 else 1 + floor_log2 (n div 2))"
  by pat_completeness auto
termination
  by (relation "measure nat") auto

declare floor_log2.simps [simp del]

definition pow2 :: "int \<Rightarrow> rat" where
  "pow2 k = (if 0 \<le> k then 2 ^ nat k else 1 / 2 ^ nat (- k))"

text \<open>The exponent \<open>e\<close> with \<open>2 ^ e \<le> x < 2 ^ (e + 1)\<close>, for a positive \<open>x\<close>.\<close>

definition binary_exponent :: "rat \<Rightarrow> int" where
  "binary_exponent x =
     (if 1 \<le> x then floor_log2 \<lfloor>x\<rfloor>
      else - (1 + floor_log2 (\<lceil>1 / x\<rceil> - 1)))"

definition round_pos_to_double :: "rat \<Rightarrow> rat" where
  "round_pos_to_double x =
     (let e = max (binary_exponent x) (- 1022);
          ulp = pow2 (e - 52)
      in of_int (round_half_even (x / ulp)) * ulp)"

definition round_to_double :: "rat \<Rightarrow> rat" where
  "round_to_double x =
     (if x = 0 then 0
      else if 0 < x then round_pos_to_double x
      else - round_pos_to_double (- x))"

text \<open>
  A rounded result of magnitude \<open>2 ^ 1024\<close> or more has no finite double. The bound
  is written as \<open>(2 ^ 32) ^ 32\<close>, which evaluates in few steps.
\<close>

definition double_overflow :: "rat \<Rightarrow> bool" where
  "double_overflow g = ((2 ^ 32) ^ 32 \<le> \<bar>g\<bar>)"

text \<open>\<open>float(n)\<close> of an integer raises OverflowError when the result is not finite.\<close>

definition float_of_int :: "int \<Rightarrow> py_error + rat" where
  "float_of_int n =
     (let g = round_to_double (of_int n)
      in if double_overflow g then Inl OverflowError else Inr g)"

text \<open>
  \<open>a / b\<close> of two integers, for the non-zero constants \<open>b\<close> of this program: the
  correctly rounded quotient, or OverflowError.
\<close>

definition int_truediv :: "int \<Rightarrow> int \<Rightarrow> py_error + rat" where
  "int_truediv a b =
     (let g = round_to_double (of_int a / of_int b)
      in if double_overflow g then Inl OverflowError else Inr g)"

text \<open>
  \<open>x / y\<close> of two floats whose quotient is no larger than \<open>x\<close> (the program only
  divides by 1024), so that the result is finite.
\<close>

definition float_div :: "rat \<Rightarrow> rat \<Rightarrow> rat" where
  "float_div x y = round_to_double (x / y)"

text \<open>
  The format \<open>.0f\<close>: the float rounded to an integer, ties to even, written with all its
  digits, and with the sign of the float.
\<close>

definition fmt_f0 :: "rat \<Rightarrow> string" where
  "fmt_f0 x =
     (if x < 0 then CHR ''-'' # str_digits (round_half_even (- x))
      else str_digits (round_half_even x))"

section \<open>The formatters\<close>

text \<open>\<open>float(bytes_value)\<close> on the values that reach it (they are truthy).\<close>

fun py_float :: "json \<Rightarrow> py_error + rat" where
  "py_float (JInt n) = float_of_int n"
| "py_float (JBool b) = Inr (if b then 1 else 0)"
| "py_float (JStr s) = Inl OutsideModel"
| "py_float _ = Inl TypeError"

text \<open>The loop of \<open>format_size\<close> over the remaining units, and the line after it.\<close>

fun size_loop :: "string list \<Rightarrow> rat \<Rightarrow> string" where
  "size_loop [] sz = fmt_f0 sz @ '' TB''"
| "size_loop (unit # units) sz =
     (if sz < 1024 then fmt_f0 sz @ '' '' @ unit
      else size_loop units (float_div sz 1024))"

definition format_size :: "json \<Rightarrow> py_error + string option" where
  "format_size bytes_value =
     (if \<not> truthy bytes_value then Inr None
      else bindE (py_float bytes_value)
             (\<lambda>sz. Inr (Some (size_loop [''B'', ''KB'', ''MB'', ''GB''] sz))))"

text \<open>
  \<open>downloads >= c\<close> against an integer constant: defined for integers and booleans
  (\<open>True\<close> counts as 1), a TypeError for the other kinds. \<open>py_str\<close> is
  \<open>str(downloads)\<close> for the two kinds that pass the comparisons.
\<close>

fun py_int_value :: "json \<Rightarrow> py_error + int" where
  "py_int_value (JInt n) = Inr n"
| "py_int_value (JBool b) = Inr (if b then 1 else 0)"
| "py_int_value _ = Inl TypeError"

fun py_str :: "json \<Rightarrow> string" where
  "py_str (JBool b) = (if b then ''True'' else ''False'')"
| "py_str (JInt n) = str_int n"
| "py_str _ = []"

definition format_downloads :: "json \<Rightarrow> py_error + string option" where
  "format_downloads downloads =
     (if \<not> truthy downloads then Inr None
      else bindE (py_int_value downloads) (\<lambda>d.
        if 1000000000 \<le> d then
          bindE (int_truediv d 1000000000) (\<lambda>q. Inr (Some (fmt_f0 q @ ''B'')))
        else if 1000000 \<le> d then
          bindE (int_truediv d 1000000) (\<lambda>q. Inr (Some (fmt_f0 q @ ''M'')))
        else if 1000 \<le> d then
          bindE (int_truediv d 1000) (\<lambda>q. Inr (Some (fmt_f0 q @ ''K'')))
        else Inr (Some (py_str downloads))))"

section \<open>The certificate parser\<close>

text \<open>\<open>str.isspace\<close> on the code points 0 to 255, which is what \<open>str.strip()\<close> removes.\<close>

definition py_isspace :: "char \<Rightarrow> bool" where
  "py_isspace c =
     (c \<in> set [CHR 0x09, CHR 0x0A, CHR 0x0B, CHR 0x0C, CHR 0x0D, CHR 0x1C, CHR 0x1D,
               CHR 0x1E, CHR 0x1F, CHR 0x20, CHR 0x85, CHR 0xA0])"

definition strip :: "string \<Rightarrow> string" where
  "strip s = rev (dropWhile py_isspace (rev (dropWhile py_isspace s)))"

text \<open>\<open>s.split(c)\<close> for a separator of one character.\<close>

fun split_on :: "char \<Rightarrow> string \<Rightarrow> string list" where
  "split_on c [] = [[]]"
| "split_on c (x # xs) =
     (if x = c then [] # split_on c xs
      else (case split_on c xs of [] \<Rightarrow> [[x]] | y # ys \<Rightarrow> (x # y) # ys))"

text \<open>\<open>kv.split(c, 1)\<close> for a \<open>kv\<close> that contains \<open>c\<close>: the two parts around its first \<open>c\<close>.\<close>

definition split_first :: "char \<Rightarrow> string \<Rightarrow> string \<times> string" where
  "split_first c kv = (takeWhile (\<lambda>x. x \<noteq> c) kv, drop 1 (dropWhile (\<lambda>x. x \<noteq> c) kv))"

text \<open>The loop that fills \<open>kv_pairs\<close>; a later segment overwrites an earlier one.\<close>

fun pairs_loop :: "string list \<Rightarrow> (string \<rightharpoonup> string) \<Rightarrow> (string \<rightharpoonup> string)" where
  "pairs_loop [] kv_pairs = kv_pairs"
| "pairs_loop (kv # kvs) kv_pairs =
     (if CHR ''='' \<in> set kv
      then (case split_first CHR ''='' kv of
              (key, val) \<Rightarrow> pairs_loop kvs (kv_pairs(strip key \<mapsto> strip val)))
      else pairs_loop kvs kv_pairs)"

fun has_substring :: "string \<Rightarrow> string \<Rightarrow> bool" where
  "has_substring p [] = (p = [])"
| "has_substring p (x # xs) = (take (length p) (x # xs) = p \<or> has_substring p xs)"

text \<open>\<open>"owner" in cert_obj\<close>, which Python defines for dicts, strings and lists.\<close>

fun contains_owner :: "json \<Rightarrow> py_error + bool" where
  "contains_owner (JObj kvs) = Inr (map_of kvs ''owner'' \<noteq> None)"
| "contains_owner (JStr s) = Inr (has_substring ''owner'' s)"
| "contains_owner (JArr xs) = Inr (JStr ''owner'' \<in> set xs)"
| "contains_owner _ = Inl TypeError"

text \<open>\<open>cert_obj["owner"]\<close> once the membership test has passed.\<close>

fun owner_item :: "json \<Rightarrow> py_error + json" where
  "owner_item (JObj kvs) = (case map_of kvs ''owner'' of None \<Rightarrow> Inl KeyError | Some v \<Rightarrow> Inr v)"
| "owner_item _ = Inl TypeError"

text \<open>\<open>kv_pairs.get(k)\<close> as a value of the returned dict: \<open>None\<close> when the key is missing.\<close>

definition opt_json :: "string option \<Rightarrow> json" where
  "opt_json v = (case v of None \<Rightarrow> JNull | Some s \<Rightarrow> JStr s)"

definition parse_certificate :: "json \<Rightarrow> py_error + json" where
  "parse_certificate cert_obj =
     (if \<not> truthy cert_obj then Inr (JObj [])
      else bindE (contains_owner cert_obj) (\<lambda>present.
        if \<not> present then Inr (JObj [])
        else bindE (owner_item cert_obj) (\<lambda>owner.
          case owner of
            JStr s \<Rightarrow>
              (let kv_pairs = pairs_loop (split_on CHR '','' s) Map.empty
               in Inr (JObj [(''developer_cn'', opt_json (kv_pairs ''CN'')),
                             (''organization'', opt_json (kv_pairs ''O'')),
                             (''local'', opt_json (kv_pairs ''L'')),
                             (''state_city'', opt_json (kv_pairs ''ST'')),
                             (''country'', opt_json (kv_pairs ''C''))]))
          | _ \<Rightarrow> Inl AttributeError)))"

section \<open>The remote fetcher\<close>

text \<open>
  What the one outbound request does is an input of the model: either \<open>client.get\<close>
  raises an exception, whose text is kept, or the remote answers with a status code and
  a body. The body is kept as \<open>response.json()\<close> decodes it: \<open>None\<close> when it is not a
  JSON document, in which case that call raises.
\<close>

datatype remote_outcome =
    RequestFailed string
  | Responded int "json option"

definition fetch_from_aptoide :: "remote_outcome \<Rightarrow> py_error + json" where
  "fetch_from_aptoide outcome =
     (case outcome of
        RequestFailed e \<Rightarrow>
          Inl (HTTPException 500 (''Connection error while requesting Aptoide: '' @ e))
      | Responded status_code body \<Rightarrow>
          if status_code \<noteq> 200
          then Inl (HTTPException 500 (''Aptoide API error: HTTP '' @ str_int status_code))
          else (case body of None \<Rightarrow> Inl JSONDecodeError | Some data \<Rightarrow> Inr data))"

section \<open>The endpoint handler\<close>

text \<open>
  The response model of \<open>models.py\<close>: fourteen fields, each declared
  \<open>Optional[str]\<close>.
\<close>

record AppResponse =
  name :: "string option"
  size_field :: "string option"
  downloads :: "string option"
  version :: "string option"
  release_date :: "string option"
  min_screen :: "string option"
  supported_cpu :: "string option"
  package_id :: "string option"
  sha1_signature :: "string option"
  developer_cn :: "string option"
  organization :: "string option"
  local_field :: "string option"
  country :: "string option"
  state_city :: "string option"

text \<open>
  Modelled from the spec: what the constructor of the response model does with the value
  of one field. The constructor is pydantic's \<open>BaseModel\<close>, which is not part of the
  repository. The specification has every field of the record optional: \<open>None\<close> is
  an absent field and a string is kept. A list or a dict is a validation error; what
  becomes of a number or a boolean is left open.
\<close>

fun optional_str :: "json \<Rightarrow> py_error + string option" where
  "optional_str JNull = Inr None"
| "optional_str (JStr s) = Inr (Some s)"
| "optional_str (JArr xs) = Inl ValidationError"
| "optional_str (JObj kvs) = Inl ValidationError"
| "optional_str _ = Inl OutsideModel"

text \<open>
  Modelled from the spec: the keyword argument that \<open>**cert_fields\<close> supplies for a
  field. When the dict has no such key the field gets no argument, which the
  specification (all fields optional) takes as an absent field.
\<close>

definition keyword :: "json \<Rightarrow> string \<Rightarrow> json" where
  "keyword kwargs k =
     (case kwargs of JObj kvs \<Rightarrow> (case map_of kvs k of None \<Rightarrow> JNull | Some v \<Rightarrow> v)
      | _ \<Rightarrow> JNull)"

text \<open>\<open>apps[0]\<close> of a truthy value.\<close>

fun first_item :: "json \<Rightarrow> py_error + json" where
  "first_item (JArr (x # xs)) = Inr x"
| "first_item (JArr []) = Inl IndexError"
| "first_item (JStr (c # cs)) = Inr (JStr [c])"
| "first_item (JStr []) = Inl IndexError"
| "first_item (JObj kvs) = Inl KeyError"
| "first_item _ = Inl TypeError"

text \<open>
  The handler from the line that picks the first result to the end: the two nested
  objects with their defaults, the certificate, the keyword arguments in the order in
  which Python evaluates them, and the construction of the response.
\<close>

definition build_response :: "json \<Rightarrow> py_error + AppResponse" where
  "build_response app_data =
     bindE (dict_get app_data ''file'' (JObj [])) (\<lambda>file_data.
     bindE (dict_get file_data ''signature'' (JObj [])) (\<lambda>signature.
     bindE (parse_certificate signature) (\<lambda>cert_fields.
     bindE (dict_get app_data ''name'' JNull) (\<lambda>a_name.
     bindE (dict_get app_data ''size'' JNull) (\<lambda>a_size.
     bindE (format_size a_size) (\<lambda>f_size.
     bindE (dict_get app_data ''downloads'' JNull) (\<lambda>a_downloads.
     bindE (format_downloads a_downloads) (\<lambda>f_downloads.
     bindE (dict_get file_data ''vername'' JNull) (\<lambda>a_vername.
     bindE (dict_get file_data ''added'' JNull) (\<lambda>a_added.
     bindE (dict_get file_data ''screensize'' JNull) (\<lambda>a_screensize.
     bindE (dict_get file_data ''cpu'' JNull) (\<lambda>a_cpu.
     bindE (dict_get app_data ''package'' JNull) (\<lambda>a_package.
     bindE (dict_get signature ''sha1'' JNull) (\<lambda>a_sha1.
     bindE (optional_str a_name) (\<lambda>v_name.
     bindE (optional_str a_vername) (\<lambda>v_version.
     bindE (optional_str a_added) (\<lambda>v_release_date.
     bindE (optional_str a_screensize) (\<lambda>v_min_screen.
     bindE (optional_str a_cpu) (\<lambda>v_supported_cpu.
     bindE (optional_str a_package) (\<lambda>v_package_id.
     bindE (optional_str a_sha1) (\<lambda>v_sha1.
     bindE (optional_str (keyword cert_fields ''developer_cn'')) (\<lambda>v_developer_cn.
     bindE (optional_str (keyword cert_fields ''organization'')) (\<lambda>v_organization.
     bindE (optional_str (keyword cert_fields ''local'')) (\<lambda>v_local.
     bindE (optional_str (keyword cert_fields ''country'')) (\<lambda>v_country.
     bindE (optional_str (keyword cert_fields ''state_city'')) (\<lambda>v_state_city.
     Inr \<lparr> name = v_name, size_field = f_size, downloads = f_downloads,
           version = v_version, release_date = v_release_date,
           min_screen = v_min_screen, supported_cpu = v_supported_cpu,
           package_id = v_package_id, sha1_signature = v_sha1,
           developer_cn = v_developer_cn, organization = v_organization,
           local_field = v_local, country = v_country,
           state_city = v_state_city \<rparr>))))))))))))))))))))))))))"

text \<open>
  \<open>get_aptoide_app\<close>: fetch, take the result list with its two defaults, answer 404
  when it is falsy, and build the response from its first element.
\<close>

definition get_aptoide_app :: "remote_outcome \<Rightarrow> py_error + AppResponse" where
  "get_aptoide_app outcome =
     bindE (fetch_from_aptoide outcome) (\<lambda>data.
     bindE (dict_get data ''datalist'' (JObj [])) (\<lambda>datalist.
     bindE (dict_get datalist ''list'' (JArr [])) (\<lambda>apps.
     if \<not> truthy apps then Inl (HTTPException 404 ''Package not found'')
     else bindE (first_item apps) build_response)))"

section \<open>The specification's reading of a distinguished name\<close>

text \<open>
  The specification describes the certificate parser in words: split the owner string
  on commas, keep the segments that contain \<open>=\<close>, split each at its first \<open>=\<close>, trim
  both parts, and read the five attributes off the resulting pairs. The definitions
  below follow those words; where a key occurs in several segments the last one
  counts, as in the mapping that the words build. \<open>join_with\<close> puts a separator back
  between segments, to say what splitting is.
\<close>

definition dn_pairs :: "string \<Rightarrow> (string \<times> string) list" where
  "dn_pairs owner =
     map (\<lambda>seg. (strip (fst (split_first CHR ''='' seg)),
                 strip (snd (split_first CHR ''='' seg))))
       (filter (\<lambda>seg. CHR ''='' \<in> set seg) (split_on CHR '','' owner))"

definition dn_attribute :: "string \<Rightarrow> string \<Rightarrow> string option" where
  "dn_attribute k owner =
     (case filter (\<lambda>p. fst p = k) (dn_pairs owner) of
        [] \<Rightarrow> None
      | p # ps \<Rightarrow> Some (snd (last (p # ps))))"

fun join_with :: "char \<Rightarrow> string list \<Rightarrow> string" where
  "join_with c [] = []"
| "join_with c [x] = x"
| "join_with c (x # y # ys) = x @ c # join_with c (y # ys)"

section \<open>The data model of a search result\<close>

text \<open>
  The specification names the fields of a result by their path in the document
  (\<open>file.vername\<close>, \<open>file.signature.sha1\<close>). \<open>at_path\<close> follows such a path through
  nested objects and finds nothing when a key on the way is missing; \<open>text_at\<close> is the
  string found there, \<open>value_at\<close> the value handed to a formatter (\<open>None\<close> when there is
  none), \<open>certificate_attribute\<close> an attribute of the owner string at
  \<open>file.signature.owner\<close>.
\<close>

fun at_path :: "string list \<Rightarrow> json \<Rightarrow> json option" where
  "at_path [] j = Some j"
| "at_path (k # ks) (JObj kvs) = (case map_of kvs k of None \<Rightarrow> None | Some v \<Rightarrow> at_path ks v)"
| "at_path (k # ks) _ = None"

definition text_at :: "string list \<Rightarrow> json \<Rightarrow> string option" where
  "text_at path j = (case at_path path j of Some (JStr s) \<Rightarrow> Some s | _ \<Rightarrow> None)"

definition value_at :: "string list \<Rightarrow> json \<Rightarrow> json" where
  "value_at path j = (case at_path path j of None \<Rightarrow> JNull | Some v \<Rightarrow> v)"

definition certificate_attribute :: "string \<Rightarrow> json \<Rightarrow> string option" where
  "certificate_attribute k r =
     (case text_at [''file'', ''signature'', ''owner''] r of
        None \<Rightarrow> None
      | Some owner \<Rightarrow> dn_attribute k owner)"

text \<open>
  The shape that the specification's data model gives a result: an object whose text
  fields are strings, \<open>null\<close> or missing, whose \<open>file\<close> and \<open>signature\<close> are objects
  when they are present, and whose \<open>owner\<close> is a string when it is present.
\<close>

definition text_or_absent :: "json option \<Rightarrow> bool" where
  "text_or_absent v =
     (case v of None \<Rightarrow> True | Some JNull \<Rightarrow> True | Some (JStr s) \<Rightarrow> True | _ \<Rightarrow> False)"

definition is_signature :: "json \<Rightarrow> bool" where
  "is_signature j =
     (case j of
        JObj sg \<Rightarrow>
          text_or_absent (map_of sg ''sha1'')
          \<and> (case map_of sg ''owner'' of None \<Rightarrow> True | Some (JStr s) \<Rightarrow> True | _ \<Rightarrow> False)
      | _ \<Rightarrow> False)"

definition is_file :: "json \<Rightarrow> bool" where
  "is_file j =
     (case j of
        JObj f \<Rightarrow>
          text_or_absent (map_of f ''vername'') \<and> text_or_absent (map_of f ''added'')
          \<and> text_or_absent (map_of f ''screensize'') \<and> text_or_absent (map_of f ''cpu'')
          \<and> (case map_of f ''signature'' of None \<Rightarrow> True | Some sg \<Rightarrow> is_signature sg)
      | _ \<Rightarrow> False)"

definition is_raw_search_result :: "json \<Rightarrow> bool" where
  "is_raw_search_result j =
     (case j of
        JObj a \<Rightarrow>
          text_or_absent (map_of a ''name'') \<and> text_or_absent (map_of a ''package'')
          \<and> (case map_of a ''file'' of None \<Rightarrow> True | Some f \<Rightarrow> is_file f)
      | _ \<Rightarrow> False)"

definition metadata_of :: "json \<Rightarrow> string option \<Rightarrow> string option \<Rightarrow> AppResponse" where
  "metadata_of r s d =
     \<lparr> name = text_at [''name''] r,
       size_field = s,
       downloads = d,
       version = text_at [''file'', ''vername''] r,
       release_date = text_at [''file'', ''added''] r,
       min_screen = text_at [''file'', ''screensize''] r,
       supported_cpu = text_at [''file'', ''cpu''] r,
       package_id = text_at [''package''] r,
       sha1_signature = text_at [''file'', ''signature'', ''sha1''] r,
       developer_cn = certificate_attribute ''CN'' r,
       organization = certificate_attribute ''O'' r,
       local_field = certificate_attribute ''L'' r,
       country = certificate_attribute ''C'' r,
       state_city = certificate_attribute ''ST'' r \<rparr>"

text \<open>An outcome that is not an \<open>HTTPException\<close>.\<close>

definition no_http :: "py_error + 'a \<Rightarrow> bool" where
  "no_http m = (\<forall>c d. m \<noteq> Inl (HTTPException c d))"

section \<open>Basic facts\<close>

lemma bindE_Inr [simp]: "bindE (Inr v) f = f v"
  by (simp add: bindE_def)

lemma bindE_Inl [simp]: "bindE (Inl e) f = Inl e"
  by (simp add: bindE_def)

lemma handler_on_list:
  assumes "map_of payload ''datalist'' = Some (JObj dl)"
    and "map_of dl ''list'' = Some (JArr apps)"
  shows "get_aptoide_app (Responded 200 (Some (JObj payload))) =
     (case apps of
        [] \<Rightarrow> Inl (HTTPException 404 ''Package not found'')
      | app_data # rest \<Rightarrow> build_response app_data)"
  using assms
  by (simp add: get_aptoide_app_def fetch_from_aptoide_def split: list.splits)

lemma split_on_not_Nil [simp]: "split_on c s \<noteq> []"
  by (induction s) (auto split: list.splits)

lemma join_split_on: "join_with c (split_on c s) = s"
proof (induction s)
  case Nil
  show ?case by simp
next
  case (Cons x xs)
  obtain y ys where sp: "split_on c xs = y # ys"
    by (cases "split_on c xs") auto
  show ?case
  proof (cases "x = c")
    case True
    with Cons sp show ?thesis by simp
  next
    case False
    have "join_with c ((x # y) # ys) = x # join_with c (y # ys)"
      by (cases ys) auto
    with False Cons sp show ?thesis by simp
  qed
qed

lemma split_on_no_sep: "seg \<in> set (split_on c s) \<Longrightarrow> c \<notin> set seg"
proof (induction s arbitrary: seg)
  case Nil
  then show ?case by simp
next
  case (Cons x xs)
  obtain y ys where sp: "split_on c xs = y # ys"
    by (cases "split_on c xs") auto
  have y: "c \<notin> set y" and ys: "\<And>z. z \<in> set ys \<Longrightarrow> c \<notin> set z"
    using Cons.IH sp by auto
  show ?case
  proof (cases "x = c")
    case True
    with Cons.prems sp y ys show ?thesis by auto
  next
    case False
    with Cons.prems sp y ys show ?thesis by auto
  qed
qed

lemma split_first_parts:
  assumes "c \<in> set kv"
  shows "kv = fst (split_first c kv) @ c # snd (split_first c kv)" and "c \<notin> set (fst (split_first c kv))"
proof -
  have ne: "dropWhile (\<lambda>x. x \<noteq> c) kv \<noteq> []"
    using assms by (simp add: dropWhile_eq_Nil_conv) 
  then have "hd (dropWhile (\<lambda>x. x \<noteq> c) kv) = c"
    using hd_dropWhile [of "\<lambda>x. x \<noteq> c" kv] by simp
  with ne have "dropWhile (\<lambda>x. x \<noteq> c) kv = c # drop 1 (dropWhile (\<lambda>x. x \<noteq> c) kv)"
    by (cases "dropWhile (\<lambda>x. x \<noteq> c) kv") auto
  then have "takeWhile (\<lambda>x. x \<noteq> c) kv @ c # drop 1 (dropWhile (\<lambda>x. x \<noteq> c) kv) = kv"
    using takeWhile_dropWhile_id [of "\<lambda>x. x \<noteq> c" kv] by simp
  then show "kv = fst (split_first c kv) @ c # snd (split_first c kv)"
    by (simp add: split_first_def)
  show "c \<notin> set (fst (split_first c kv))"
    by (auto simp: split_first_def dest: set_takeWhileD)
qed

lemma rev_dropWhile_split: "t = rev (dropWhile P (rev t)) @ rev (takeWhile P (rev t))"
proof -
  have "rev (rev t) = rev (takeWhile P (rev t) @ dropWhile P (rev t))"
    by (simp only: takeWhile_dropWhile_id)
  then show ?thesis
    by (simp only: rev_append rev_rev_ident)
qed

lemma strip_parts:
  "\<exists>l r. s = l @ strip s @ r \<and> (\<forall>c \<in> set l. py_isspace c) \<and> (\<forall>c \<in> set r. py_isspace c)"
proof -
  let ?t = "dropWhile py_isspace s"
  have 1: "s = takeWhile py_isspace s @ ?t" by simp
  have 2: "?t = strip s @ rev (takeWhile py_isspace (rev ?t))"
    unfolding strip_def by (rule rev_dropWhile_split)
  have "s = takeWhile py_isspace s @ strip s @ rev (takeWhile py_isspace (rev ?t))"
    using 1 2 by metis
  moreover have "\<forall>c \<in> set (takeWhile py_isspace s). py_isspace c"
    by (auto dest: set_takeWhileD)
  moreover have "\<forall>c \<in> set (rev (takeWhile py_isspace (rev ?t))). py_isspace c"
    by (auto dest: set_takeWhileD)
  ultimately show ?thesis by blast
qed

lemma strip_ends:
  assumes "strip s \<noteq> []"
  shows "\<not> py_isspace (hd (strip s))" and "\<not> py_isspace (last (strip s))"
proof -
  let ?t = "dropWhile py_isspace s"
  let ?u = "dropWhile py_isspace (rev ?t)"
  have u: "?u \<noteq> []" using assms by (simp add: strip_def)
  have "last (strip s) = hd ?u" using u by (simp add: strip_def last_rev)
  moreover have "\<not> py_isspace (hd ?u)" using u hd_dropWhile by blast
  ultimately show "\<not> py_isspace (last (strip s))" by simp
  have t: "?t \<noteq> []"
  proof
    assume "?t = []"
    with u show False by simp
  qed
  have "?t = strip s @ rev (takeWhile py_isspace (rev ?t))"
    unfolding strip_def by (rule rev_dropWhile_split)
  then have "hd ?t = hd (strip s)" using assms by (metis hd_append2)
  moreover have "\<not> py_isspace (hd ?t)" using t hd_dropWhile by blast
  ultimately show "\<not> py_isspace (hd (strip s))" by simp
qed

lemma pairs_loop_map_add:
  "pairs_loop segs m =
     m ++ map_of (rev (map (\<lambda>seg. (strip (fst (split_first CHR ''='' seg)), strip (snd (split_first CHR ''='' seg))))
       (filter (\<lambda>seg. CHR ''='' \<in> set seg) segs)))"
proof (induction segs arbitrary: m)
  case Nil
  show ?case by simp
next
  case (Cons kv kvs)
  show ?case
  proof (cases "CHR ''='' \<in> set kv")
    case True
    have "pairs_loop (kv # kvs) m =
            pairs_loop kvs (m(strip (fst (split_first CHR ''='' kv)) \<mapsto> strip (snd (split_first CHR ''='' kv))))"
      using True by (simp add: split_beta)
    also have "\<dots> = m(strip (fst (split_first CHR ''='' kv)) \<mapsto> strip (snd (split_first CHR ''='' kv))) ++
        map_of (rev (map (\<lambda>seg. (strip (fst (split_first CHR ''='' seg)), strip (snd (split_first CHR ''='' seg))))
       (filter (\<lambda>seg. CHR ''='' \<in> set seg) kvs)))"
      by (rule Cons.IH)
    also have "\<dots> = m ++ map_of (rev (map (\<lambda>seg. (strip (fst (split_first CHR ''='' seg)), strip (snd (split_first CHR ''='' seg))))
       (filter (\<lambda>seg. CHR ''='' \<in> set seg) (kv # kvs))))"
      using True by (simp add: fun_eq_iff map_add_def split: option.splits)
    finally show ?thesis .
  next
    case False
    then show ?thesis by (simp add: Cons.IH)
  qed
qed

lemma case_last_nonempty:
  "xs \<noteq> [] \<Longrightarrow> (case xs of [] \<Rightarrow> None | q # qs \<Rightarrow> Some (f (last (q # qs)))) = Some (f (last xs))"
  by (cases xs) auto

lemma map_of_rev_filter:
  "map_of (rev ps) k = (case filter (\<lambda>p. fst p = k) ps of [] \<Rightarrow> None | q # qs \<Rightarrow> Some (snd (last (q # qs))))"
proof (induction ps rule: rev_induct)
  case Nil
  show ?case by simp
next
  case (snoc p ps)
  show ?case
  proof (cases "fst p = k")
    case True
    have "filter (\<lambda>p. fst p = k) (ps @ [p]) \<noteq> []" using True by simp
    then have "(case filter (\<lambda>p. fst p = k) (ps @ [p]) of [] \<Rightarrow> None | q # qs \<Rightarrow> Some (snd (last (q # qs))))
        = Some (snd (last (filter (\<lambda>p. fst p = k) (ps @ [p]))))"
      by (rule case_last_nonempty)
    also have "\<dots> = Some (snd p)" using True by simp
    finally show ?thesis using True by (cases p) simp
  next
    case False
    then show ?thesis using snoc by (cases p) auto
  qed
qed

lemma pairs_loop_attribute: "pairs_loop (split_on CHR '','' owner) Map.empty k = dn_attribute k owner"
  by (simp add: pairs_loop_map_add dn_attribute_def dn_pairs_def map_of_rev_filter)

lemma parse_certificate_owner:
  assumes "map_of cert ''owner'' = Some (JStr owner)"
  shows "parse_certificate (JObj cert) =
       Inr (JObj [(''developer_cn'', opt_json (dn_attribute ''CN'' owner)),
                  (''organization'', opt_json (dn_attribute ''O'' owner)),
                  (''local'', opt_json (dn_attribute ''L'' owner)),
                  (''state_city'', opt_json (dn_attribute ''ST'' owner)),
                  (''country'', opt_json (dn_attribute ''C'' owner))])"
proof -
  have "cert \<noteq> []" using assms by auto
  then show ?thesis
    using assms by (simp add: parse_certificate_def pairs_loop_attribute)
qed

lemma has_substring_append: "has_substring p (xs @ p @ ys)"
proof (induction xs)
  case Nil
  show ?case
  proof (cases "p @ ys")
    case Nil
    then show ?thesis by simp
  next
    case (Cons a list)
    have "take (length p) (a # list) = p"
      using Cons by (simp add: append_eq_conv_conj)
    with Cons show ?thesis by simp
  qed
next
  case (Cons x xs)
  then show ?case by simp
qed

lemma has_substring_prefix: "has_substring p (p @ ys)"
  using has_substring_append [of p "[]" ys] by simp

lemma has_substring_suffix: "has_substring p (xs @ p)"
  using has_substring_append [of p xs "[]"] by simp

lemma has_substring_trans_prefix: "has_substring p (p @ ys @ zs)"
  using has_substring_append [of p "[]" "ys @ zs"] by simp

lemma optional_str_text:
  "text_or_absent (map_of kvs k) \<Longrightarrow>
   optional_str (case map_of kvs k of None \<Rightarrow> JNull | Some v \<Rightarrow> v)
     = Inr (case map_of kvs k of Some (JStr s) \<Rightarrow> Some s | _ \<Rightarrow> None)"
  by (auto simp: text_or_absent_def split: option.splits json.splits)

lemma optional_str_opt_json [simp]: "optional_str (opt_json v) = Inr v"
  by (cases v) (auto simp: opt_json_def)

lemma dict_get_obj [simp]:
  "dict_get (JObj kvs) k dflt = Inr (case map_of kvs k of None \<Rightarrow> dflt | Some v \<Rightarrow> v)"
  by simp

lemma build_response_shaped:
  assumes "is_raw_search_result r"
  shows "build_response r =
     bindE (format_size (value_at [''size''] r)) (\<lambda>s.
     bindE (format_downloads (value_at [''downloads''] r)) (\<lambda>d.
       Inr (metadata_of r s d)))"
proof -
  obtain a where r: "r = JObj a"
    using assms by (auto simp: is_raw_search_result_def split: json.splits)
  have a: "text_or_absent (map_of a ''name'')" "text_or_absent (map_of a ''package'')"
    using assms r by (auto simp: is_raw_search_result_def)
  define f where "f = (case map_of a ''file'' of Some (JObj f) \<Rightarrow> f | _ \<Rightarrow> [])"
  have a_file: "map_of a ''file'' = None \<and> f = [] \<or> map_of a ''file'' = Some (JObj f) \<and> is_file (JObj f)"
    using assms r
    by (auto simp: f_def is_raw_search_result_def is_file_def split: option.splits json.splits)
  then have f_obj: "(case map_of a ''file'' of None \<Rightarrow> JObj [] | Some v \<Rightarrow> v) = JObj f"
    by auto
  have f: "text_or_absent (map_of f ''vername'')" "text_or_absent (map_of f ''added'')"
     "text_or_absent (map_of f ''screensize'')" "text_or_absent (map_of f ''cpu'')"
    using a_file by (auto simp: is_file_def text_or_absent_def)
  define sg where "sg = (case map_of f ''signature'' of Some (JObj sg) \<Rightarrow> sg | _ \<Rightarrow> [])"
  have f_sig: "map_of f ''signature'' = None \<and> sg = []
      \<or> map_of f ''signature'' = Some (JObj sg) \<and> is_signature (JObj sg)"
    using a_file
    by (auto simp: sg_def is_file_def is_signature_def split: option.splits json.splits)
  then have sg_obj: "(case map_of f ''signature'' of None \<Rightarrow> JObj [] | Some v \<Rightarrow> v) = JObj sg"
    by auto
  have sha: "text_or_absent (map_of sg ''sha1'')"
    using f_sig by (auto simp: is_signature_def text_or_absent_def)
  have own: "map_of sg ''owner'' = None \<or> (\<exists>owner. map_of sg ''owner'' = Some (JStr owner))"
    using f_sig by (auto simp: is_signature_def split: option.splits json.splits)
  have p_name: "text_at [''name''] r = (case map_of a ''name'' of Some (JStr s) \<Rightarrow> Some s | _ \<Rightarrow> None)"
    and p_pkg: "text_at [''package''] r = (case map_of a ''package'' of Some (JStr s) \<Rightarrow> Some s | _ \<Rightarrow> None)"
    by (auto simp: r text_at_def split: option.splits json.splits)
  have p_file: "text_at [''file'', k] r = (case map_of f k of Some (JStr s) \<Rightarrow> Some s | _ \<Rightarrow> None)" for k
    using a_file by (auto simp: r text_at_def split: option.splits json.splits)
  have p_sig: "text_at [''file'', ''signature'', k] r = (case map_of sg k of Some (JStr s) \<Rightarrow> Some s | _ \<Rightarrow> None)" for k
    using a_file f_sig by (auto simp: r text_at_def split: option.splits json.splits)
  have v_size: "value_at [''size''] r = (case map_of a ''size'' of None \<Rightarrow> JNull | Some v \<Rightarrow> v)"
    and v_dl: "value_at [''downloads''] r = (case map_of a ''downloads'' of None \<Rightarrow> JNull | Some v \<Rightarrow> v)"
    by (auto simp: r value_at_def split: option.splits)
  note texts = optional_str_text [OF a(1)] optional_str_text [OF a(2)]
    optional_str_text [OF f(1)] optional_str_text [OF f(2)] optional_str_text [OF f(3)]
    optional_str_text [OF f(4)] optional_str_text [OF sha]
  from own show ?thesis
  proof
    assume none: "map_of sg ''owner'' = None"
    then have cert: "parse_certificate (JObj sg) = Inr (JObj [])"
      by (simp add: parse_certificate_def)
    show ?thesis
      unfolding r build_response_def
      by (simp add: f_obj sg_obj cert texts keyword_def metadata_of_def
          p_name [unfolded r] p_pkg [unfolded r] p_file [unfolded r] p_sig [unfolded r]
          v_size [unfolded r] v_dl [unfolded r] certificate_attribute_def none)
  next
    assume "\<exists>owner. map_of sg ''owner'' = Some (JStr owner)"
    then obtain owner where some: "map_of sg ''owner'' = Some (JStr owner)" ..
    note cert = parse_certificate_owner [OF some]
    show ?thesis
      unfolding r build_response_def
      by (simp add: f_obj sg_obj cert texts keyword_def metadata_of_def
          p_name [unfolded r] p_pkg [unfolded r] p_file [unfolded r] p_sig [unfolded r]
          v_size [unfolded r] v_dl [unfolded r] certificate_attribute_def some)
  qed
qed

lemma no_http_Inr [simp]: "no_http (Inr v)"
  by (simp add: no_http_def)

lemma no_http_bindE: "no_http m \<Longrightarrow> (\<And>v. no_http (f v)) \<Longrightarrow> no_http (bindE m f)"
  by (cases m) (auto simp: no_http_def)

lemma no_http_dict_get [simp]: "no_http (dict_get j k dflt)"
  by (cases j) (auto simp: no_http_def)

lemma no_http_optional_str [simp]: "no_http (optional_str j)"
  by (cases j) (auto simp: no_http_def)

lemma no_http_float_of_int [simp]: "no_http (float_of_int n)"
  by (simp add: no_http_def float_of_int_def Let_def)

lemma no_http_int_truediv [simp]: "no_http (int_truediv a b)"
  by (simp add: no_http_def int_truediv_def Let_def)

lemma no_http_py_float [simp]: "no_http (py_float j)"
  by (cases j) (auto simp: no_http_def float_of_int_def Let_def)

lemma no_http_py_int_value [simp]: "no_http (py_int_value j)"
  by (cases j) (auto simp: no_http_def)

lemma no_http_format_size [simp]: "no_http (format_size j)"
  unfolding format_size_def by (auto intro!: no_http_bindE)

lemma no_http_format_downloads [simp]: "no_http (format_downloads j)"
  unfolding format_downloads_def by (auto intro!: no_http_bindE)

lemma no_http_contains_owner [simp]: "no_http (contains_owner j)"
  by (cases j) (auto simp: no_http_def)

lemma no_http_owner_item [simp]: "no_http (owner_item j)"
  by (cases j) (auto simp: no_http_def split: option.splits)

lemma no_http_parse_certificate [simp]: "no_http (parse_certificate j)"
  unfolding parse_certificate_def
  by (auto intro!: no_http_bindE simp: Let_def split: json.splits) (simp_all add: no_http_def)

lemma no_http_build_response: "no_http (build_response j)"
  unfolding build_response_def by (intro no_http_bindE) simp_all

lemma bindE_eq_Inr: "(bindE m f = Inr r) = (\<exists>v. m = Inr v \<and> f v = Inr r)"
  by (cases m) auto

lemma build_response_size:
  assumes "build_response (JObj a) = Inr resp"
  shows "format_size (case map_of a ''size'' of None \<Rightarrow> JNull | Some v \<Rightarrow> v) = Inr (size_field resp)"
  using assms unfolding build_response_def by (auto simp: bindE_eq_Inr)

subsection \<open>Rounding to a double\<close>

lemma floor_log2_nonneg: "0 \<le> floor_log2 n"
  by (induction n rule: floor_log2.induct) (subst floor_log2.simps, simp)

lemma floor_log2_bounds:
  "1 \<le> n \<Longrightarrow> 2 ^ nat (floor_log2 n) \<le> n \<and> n < 2 ^ nat (floor_log2 n + 1)"
proof (induction n rule: floor_log2.induct)
  case (1 n)
  show ?case
  proof (cases "n < 2")
    case True
    with "1.prems" have "n = 1" by simp
    then show ?thesis by (simp add: floor_log2.simps)
  next
    case False
    let ?k = "nat (floor_log2 (n div 2))"
    have "1 \<le> n div 2" using False by simp
    with "1.IH" False have ih: "2 ^ ?k \<le> n div 2" "n div 2 < 2 ^ nat (floor_log2 (n div 2) + 1)"
      by simp_all
    have k1: "nat (floor_log2 (n div 2) + 1) = Suc ?k"
      using floor_log2_nonneg [of "n div 2"] by simp
    have fl: "floor_log2 n = 1 + floor_log2 (n div 2)"
      using False by (subst floor_log2.simps) simp
    have n1: "nat (floor_log2 n) = Suc ?k" and n2: "nat (floor_log2 n + 1) = Suc (Suc ?k)"
      using floor_log2_nonneg [of "n div 2"] by (simp_all add: fl)
    have "2 * 2 ^ ?k \<le> n" using ih(1) by simp
    moreover have "n < 2 * 2 ^ Suc ?k" using ih(2) k1 by simp
    ultimately show ?thesis by (simp add: n1 n2)
  qed
qed

lemma pow2_pos [simp]: "0 < pow2 k"
  by (simp add: pow2_def)

lemma pow2_shift_nat: "pow2 (int k - int p) * 2 ^ p = 2 ^ k"
proof (cases "p \<le> k")
  case True
  then have "pow2 (int k - int p) = 2 ^ (k - p)"
    by (simp add: pow2_def nat_diff_distrib')
  then have "pow2 (int k - int p) * 2 ^ p = 2 ^ ((k - p) + p)"
    by (simp only: power_add)
  with True show ?thesis by simp
next
  case False
  then have "pow2 (int k - int p) = 1 / 2 ^ (p - k)"
    by (simp add: pow2_def nat_diff_distrib')
  moreover have "(2::rat) ^ p = 2 ^ ((p - k) + k)" using False by simp
  then have "(2::rat) ^ p = 2 ^ (p - k) * 2 ^ k" by (simp only: power_add)
  ultimately show ?thesis by simp
qed

lemma pow2_shift: "pow2 (int k - 52) * 2 ^ 52 = 2 ^ k"
  using pow2_shift_nat [of k 52] by simp

lemma binary_exponent_ge1:
  assumes "1 \<le> x"
  shows "0 \<le> binary_exponent x"
    and "2 ^ nat (binary_exponent x) \<le> x"
    and "x < 2 ^ Suc (nat (binary_exponent x))"
proof -
  let ?f = "\<lfloor>x\<rfloor>"
  have f1: "1 \<le> ?f" using assms by simp
  have e: "binary_exponent x = floor_log2 ?f"
    using assms by (simp add: binary_exponent_def)
  show "0 \<le> binary_exponent x" by (simp add: e floor_log2_nonneg)
  note b = floor_log2_bounds [OF f1]
  have "(of_int (2 ^ nat (floor_log2 ?f)) :: rat) \<le> of_int ?f"
    using b by (simp only: of_int_le_iff)
  also have "\<dots> \<le> x" by simp
  finally show "2 ^ nat (binary_exponent x) \<le> x" by (simp add: e)
  have "?f + 1 \<le> 2 ^ nat (floor_log2 ?f + 1)" using b by simp
  then have "(of_int (?f + 1) :: rat) \<le> of_int (2 ^ nat (floor_log2 ?f + 1))"
    by (simp only: of_int_le_iff)
  moreover have "x < of_int (?f + 1)" by simp linarith
  moreover have "nat (floor_log2 ?f + 1) = Suc (nat (floor_log2 ?f))"
    using floor_log2_nonneg [of ?f] by simp
  ultimately show "x < 2 ^ Suc (nat (binary_exponent x))" by (simp add: e)
qed

lemma round_half_even_of_int [simp]: "round_half_even (of_int z) = z"
  by (simp add: round_half_even_def)

lemma round_half_even_error: "\<bar>of_int (round_half_even x) - x\<bar> \<le> 1 / 2"
proof -
  have "of_int \<lfloor>x\<rfloor> \<le> x" "x < of_int \<lfloor>x\<rfloor> + 1" by linarith+
  then show ?thesis
    by (auto simp: round_half_even_def Let_def abs_le_iff)
qed

lemma round_half_even_near:
  assumes "\<bar>x - of_int n\<bar> < 1 / 2"
  shows "round_half_even x = n"
proof -
  have a: "of_int n - 1 / 2 < x" "x < of_int n + 1 / 2"
    using assms by linarith+
  have "of_int (n - 1) \<le> x" using a by simp
  then have lo: "n - 1 \<le> \<lfloor>x\<rfloor>" by (simp only: le_floor_iff)
  have "x < of_int (n + 1)" using a by simp
  then have hi: "\<lfloor>x\<rfloor> < n + 1" by (simp only: floor_less_iff)
  have "\<lfloor>x\<rfloor> = n \<or> \<lfloor>x\<rfloor> = n - 1"
    using lo hi by linarith
  then show ?thesis
  proof
    assume f: "\<lfloor>x\<rfloor> = n"
    then have "of_int n \<le> x" using of_int_floor_le [of x] by simp
    with a f show ?thesis by (simp add: round_half_even_def Let_def)
  next
    assume f: "\<lfloor>x\<rfloor> = n - 1"
    have "x < of_int (\<lfloor>x\<rfloor> + 1)" by simp linarith
    then have "x < of_int n" using f by simp
    with a f show ?thesis by (simp add: round_half_even_def Let_def)
  qed
qed

lemma exact_core:
  fixes x ulp :: rat
  assumes lo: "2 ^ k \<le> x" and x: "x = of_int a / 2 ^ n" and a: "a < 2 ^ Suc p"
    and ulp: "ulp * 2 ^ p = 2 ^ k"
  shows "of_int (round_half_even (x / ulp)) * ulp = x"
proof -
  have "(2::rat) ^ k * 2 ^ n \<le> of_int a"
    using lo x by (simp add: field_simps)
  then have "(of_int (2 ^ (k + n)) :: rat) \<le> of_int a"
    by (simp add: power_add)
  then have "(2::int) ^ (k + n) \<le> a"
    by (simp only: of_int_le_iff)
  then have "(2::int) ^ (k + n) < 2 ^ Suc p" using a by (rule le_less_trans)
  then have "k + n < Suc p" by (rule power_less_imp_less_exp [rotated]) simp
  then obtain j where p: "p = j + n + k"
    by (metis add.assoc add.commute less_Suc_eq_le le_Suc_ex)
  have ulp': "ulp * (2 ^ j * 2 ^ n) = 1"
    using ulp by (simp add: p power_add)
  then have ulp_ne: "ulp \<noteq> 0" by auto
  have "x / ulp = x * (2 ^ j * 2 ^ n)"
    using ulp' ulp_ne by (simp add: field_simps)
  also have "\<dots> = of_int (a * 2 ^ j)"
    by (simp add: x)
  finally have m: "x / ulp = of_int (a * 2 ^ j)" .
  have "of_int (round_half_even (x / ulp)) * ulp = of_int (a * 2 ^ j) * ulp"
    by (simp only: m round_half_even_of_int)
  also have "\<dots> = x"
    using m ulp_ne by (metis nonzero_eq_divide_eq)
  finally show ?thesis .
qed

lemma error_core:
  fixes x ulp :: rat
  assumes lo: "2 ^ k \<le> x" and ulp: "ulp * 2 ^ p = 2 ^ k" and pos: "0 < ulp"
  shows "\<bar>of_int (round_half_even (x / ulp)) * ulp - x\<bar> \<le> x / 2 ^ Suc p"
proof -
  let ?m = "x / ulp"
  have "of_int (round_half_even ?m) * ulp - x = (of_int (round_half_even ?m) - ?m) * ulp"
    using pos by (simp add: field_simps)
  then have "\<bar>of_int (round_half_even ?m) * ulp - x\<bar> = \<bar>of_int (round_half_even ?m) - ?m\<bar> * ulp"
    using pos by (simp add: abs_mult)
  also have "\<dots> \<le> (1 / 2) * ulp"
    using round_half_even_error [of ?m] pos by (intro mult_right_mono) simp_all
  also have "\<dots> \<le> (1 / 2) * (x / 2 ^ p)"
  proof -
    have "ulp = 2 ^ k / 2 ^ p" using ulp by (simp add: field_simps)
    also have "\<dots> \<le> x / 2 ^ p" using lo by (simp add: divide_right_mono)
    finally show ?thesis by simp
  qed
  finally show ?thesis by simp
qed

lemma round_pos_to_double_unfold:
  assumes "1 \<le> x"
  shows "round_pos_to_double x =
     of_int (round_half_even (x / pow2 (int (nat (binary_exponent x)) - 52)))
       * pow2 (int (nat (binary_exponent x)) - 52)"
proof -
  have "0 \<le> binary_exponent x" using assms by (rule binary_exponent_ge1)
  then have "max (binary_exponent x) (- 1022) = int (nat (binary_exponent x))" by simp
  then show ?thesis by (simp add: round_pos_to_double_def Let_def)
qed

lemma round_pos_exact:
  assumes "1 \<le> x" and "x = of_int a / 2 ^ n" and "a < 2 ^ 53"
  shows "round_pos_to_double x = x"
proof -
  have a: "a < 2 ^ Suc 52" using assms(3) by simp
  show ?thesis
    unfolding round_pos_to_double_unfold [OF assms(1)]
    by (rule exact_core [OF binary_exponent_ge1(2) [OF assms(1)] assms(2) a pow2_shift])
qed

lemma round_pos_error:
  assumes "1 \<le> x"
  shows "\<bar>round_pos_to_double x - x\<bar> \<le> x / 2 ^ 53"
proof -
  have "\<bar>round_pos_to_double x - x\<bar> \<le> x / 2 ^ Suc 52"
    unfolding round_pos_to_double_unfold [OF assms(1)]
    by (rule error_core [OF binary_exponent_ge1(2) [OF assms(1)] pow2_shift pow2_pos])
  then show ?thesis by simp
qed

lemma float_of_int_exact:
  assumes "\<bar>n\<bar> < 2 ^ 53"
  shows "float_of_int n = Inr (of_int n)"
proof -
  have r: "round_pos_to_double (of_int m) = of_int m" if "0 < m" "m < 2 ^ 53" for m :: int
    using that round_pos_exact [of "of_int m" m 0] by simp
  have g: "round_to_double (of_int n) = of_int n"
  proof (cases "n = 0")
    case True
    then show ?thesis by (simp add: round_to_double_def)
  next
    case False
    show ?thesis
    proof (cases "0 < n")
      case True
      with assms r [of n] show ?thesis by (simp add: round_to_double_def)
    next
      case neg: False
      with False assms r [of "- n"] show ?thesis by (simp add: round_to_double_def)
    qed
  qed
  have "\<bar>of_int n :: rat\<bar> < 2 ^ 53"
    using assms by (metis of_int_abs of_int_less_iff of_int_numeral of_int_power)
  then have "\<not> double_overflow (of_int n)"
    by (simp add: double_overflow_def)
  with g show ?thesis by (simp add: float_of_int_def)
qed

lemma round_half_even_nonneg: "0 \<le> x \<Longrightarrow> 0 \<le> round_half_even x"
  by (auto simp: round_half_even_def Let_def)

lemma fmt_f0_nonneg: "0 \<le> x \<Longrightarrow> fmt_f0 x = str_int (round_half_even x)"
  using round_half_even_nonneg [of x] by (simp add: fmt_f0_def str_int_def)

lemma fmt_f0_neg_int: "n < 0 \<Longrightarrow> fmt_f0 (of_int n) = str_int n"
proof -
  assume "n < 0"
  moreover have "round_half_even (- of_int n) = - n"
    using round_half_even_of_int [of "- n"] by simp
  ultimately show ?thesis by (simp add: fmt_f0_def str_int_def)
qed

lemma float_div_1024_exact:
  assumes "1024 \<le> x" and "x = of_int a / 2 ^ n" and "a < 2 ^ 53"
  shows "float_div x 1024 = of_int a / 2 ^ (n + 10)"
proof -
  have y: "x / 1024 = of_int a / 2 ^ (n + 10)"
    by (simp add: assms(2) power_add)
  have "1 \<le> x / 1024" using assms(1) by simp
  then have "round_pos_to_double (x / 1024) = x / 1024"
    using y assms(3) by (rule round_pos_exact)
  moreover have "0 < x / 1024" using assms(1) by simp
  ultimately show ?thesis
    using y by (simp add: float_div_def round_to_double_def)
qed

lemma size_loop_exact:
  assumes "0 < B" and "B < 2 ^ 53"
  shows "size_loop [''B'', ''KB'', ''MB'', ''GB''] (of_int B) =
     (if B < 1024 then fmt_f0 (of_int B) @ '' B''
      else if B < 1024 ^ 2 then fmt_f0 (of_int B / 1024) @ '' KB''
      else if B < 1024 ^ 3 then fmt_f0 (of_int B / 1024 ^ 2) @ '' MB''
      else if B < 1024 ^ 4 then fmt_f0 (of_int B / 1024 ^ 3) @ '' GB''
      else fmt_f0 (of_int B / 1024 ^ 4) @ '' TB'')"
proof -
  let ?b = "of_int B :: rat"
  have lt: "(?b / 2 ^ n < 1024) = (B < 1024 * 2 ^ n)" for n
  proof -
    have "(?b / 2 ^ n < 1024) = (?b < of_int (1024 * 2 ^ n))"
      by (simp add: field_simps)
    also have "\<dots> = (B < 1024 * 2 ^ n)" by (simp only: of_int_less_iff)
    finally show ?thesis .
  qed
  have d0: "float_div ?b 1024 = ?b / 1024" if "\<not> B < 1024"
    using float_div_1024_exact [of ?b B 0] that assms(2) by simp
  have d1: "float_div (?b / 1024) 1024 = ?b / 1048576" if "\<not> B < 1048576"
    using float_div_1024_exact [of "?b / 2 ^ 10" B 10] that assms(2) lt [of 10] by simp
  have d2: "float_div (?b / 1048576) 1024 = ?b / 1073741824" if "\<not> B < 1073741824"
    using float_div_1024_exact [of "?b / 2 ^ 20" B 20] that assms(2) lt [of 20] by simp
  have d3: "float_div (?b / 1073741824) 1024 = ?b / 1099511627776" if "\<not> B < 1099511627776"
    using float_div_1024_exact [of "?b / 2 ^ 30" B 30] that assms(2) lt [of 30] by simp
  have l0: "(?b < 1024) = (B < 1024)" using lt [of 0] by simp
  have l1: "(?b / 1024 < 1024) = (B < 1048576)" using lt [of 10] by simp
  have l2: "(?b / 1048576 < 1024) = (B < 1073741824)" using lt [of 20] by simp
  have l3: "(?b / 1073741824 < 1024) = (B < 1099511627776)" using lt [of 30] by simp
  consider (a) "B < 1024"
    | (b) "\<not> B < 1024" "B < 1048576"
    | (c) "\<not> B < 1024" "\<not> B < 1048576" "B < 1073741824"
    | (d) "\<not> B < 1024" "\<not> B < 1048576" "\<not> B < 1073741824" "B < 1099511627776"
    | (e) "\<not> B < 1024" "\<not> B < 1048576" "\<not> B < 1073741824" "\<not> B < 1099511627776"
    by linarith
  then show ?thesis
  proof cases
    case a
    then show ?thesis by (simp add: l0)
  next
    case b
    then show ?thesis by (simp add: l0 l1 d0)
  next
    case c
    then show ?thesis by (simp add: l0 l1 l2 d0 d1)
  next
    case d
    then show ?thesis by (simp add: l0 l1 l2 l3 d0 d1 d2)
  next
    case e
    then show ?thesis by (simp add: l0 l1 l2 l3 d0 d1 d2 d3)
  qed
qed

lemma round_half_even_strict:
  assumes "x - of_int \<lfloor>x\<rfloor> \<noteq> 1 / 2"
  shows "\<bar>x - of_int (round_half_even x)\<bar> < 1 / 2"
proof -
  have "of_int \<lfloor>x\<rfloor> \<le> x" "x < of_int \<lfloor>x\<rfloor> + 1" by linarith+
  with assms show ?thesis
    by (auto simp: round_half_even_def Let_def abs_less_iff)
qed

text \<open>A quotient of integers that is not a tie stays away from the tie by 1 / (2 q).\<close>

lemma quotient_gap:
  fixes D q n :: int
  assumes q: "0 < q" and near: "\<bar>of_int D / of_int q - (of_int n :: rat)\<bar> < 1 / 2"
  shows "\<bar>of_int D / of_int q - (of_int n :: rat)\<bar> \<le> 1 / 2 - 1 / (2 * of_int q)"
proof -
  let ?t = "2 * D - 2 * q * n"
  have qr: "(0::rat) < of_int q" using q by simp
  have eq: "of_int D / of_int q - (of_int n :: rat) = of_int ?t / (2 * of_int q)"
    using qr by (simp add: field_simps)
  have "\<bar>(of_int ?t :: rat) / (2 * of_int q)\<bar> < 1 / 2" using near eq by simp
  then have "\<bar>of_int ?t :: rat\<bar> < of_int q"
    using qr by (simp add: abs_less_iff field_simps)
  then have "(of_int \<bar>?t\<bar> :: rat) < of_int q" by (simp only: of_int_abs)
  then have "\<bar>?t\<bar> < q" by (simp only: of_int_less_iff)
  then have "\<bar>?t\<bar> \<le> q - 1" by simp
  then have "(of_int \<bar>?t\<bar> :: rat) \<le> of_int (q - 1)" by (simp only: of_int_le_iff)
  then have "\<bar>of_int ?t :: rat\<bar> \<le> of_int q - 1" by simp
  then have le: "\<bar>(of_int ?t :: rat)\<bar> / (2 * of_int q) \<le> (of_int q - 1) / (2 * of_int q)"
    using qr by (intro divide_right_mono) simp_all
  have "\<bar>of_int D / of_int q - (of_int n :: rat)\<bar> = \<bar>(of_int ?t :: rat) / (2 * of_int q)\<bar>"
    by (simp only: eq)
  also have "\<dots> = \<bar>of_int ?t :: rat\<bar> / (2 * of_int q)"
    using qr by (simp add: abs_mult)
  also have "\<dots> \<le> (of_int q - 1) / (2 * of_int q)" by (rule le)
  also have "\<dots> = 1 / 2 - 1 / (2 * (of_int q :: rat))"
    using qr by (simp add: field_simps)
  finally show ?thesis .
qed

lemma round_to_double_pos: "0 < x \<Longrightarrow> round_to_double x = round_pos_to_double x"
  by (simp add: round_to_double_def)

lemma int_truediv_rounds:
  assumes q: "0 < q" and qD: "q \<le> D" and D: "D < 2 ^ 52"
  shows "\<exists>g. int_truediv D q = Inr g \<and> 0 \<le> g
           \<and> round_half_even g = round_half_even (of_int D / of_int q)"
proof -
  let ?x = "of_int D / of_int q :: rat"
  let ?g = "round_pos_to_double ?x"
  have qr: "(0::rat) < of_int q" using q by simp
  have Dr: "(of_int D :: rat) < 2 ^ 52"
    using D by (metis of_int_less_iff of_int_numeral of_int_power)
  have x1: "1 \<le> ?x" using q qD by simp
  then have x0: "0 < ?x" by simp
  have xD: "?x \<le> of_int D"
  proof -
    have "(1::rat) \<le> of_int q" using q by simp
    moreover have "(0::rat) \<le> of_int D" using q qD by simp
    ultimately show ?thesis using qr by (simp add: field_simps mult_le_cancel_left1)
  qed
  have err: "\<bar>?g - ?x\<bar> \<le> ?x / 2 ^ 53" using x1 by (rule round_pos_error)
  have rd: "round_to_double ?x = ?g" using x0 by (rule round_to_double_pos)
  have g_lo: "0 \<le> ?g"
  proof -
    have "?x / 2 ^ 53 \<le> ?x" using x0 by (simp add: field_simps)
    with err show ?thesis by linarith
  qed
  have g_hi: "?g < 2 ^ 53"
  proof -
    have "?x / 2 ^ 53 \<le> ?x" using x0 by (simp add: field_simps)
    with err have "?g \<le> 2 * ?x" by linarith
    also have "\<dots> \<le> 2 * of_int D" using xD by simp
    also have "\<dots> < 2 ^ 53" using Dr by simp
    finally show ?thesis .
  qed
  have no: "\<not> double_overflow ?g"
    using g_lo g_hi by (simp add: double_overflow_def)
  have td: "int_truediv D q = Inr ?g"
    using rd no by (simp add: int_truediv_def)
  have "round_half_even ?g = round_half_even ?x"
  proof (cases "?x - of_int \<lfloor>?x\<rfloor> = 1 / 2")
    case True
    let ?a = "2 * \<lfloor>?x\<rfloor> + 1"
    have xa: "?x = of_int ?a / 2 ^ 1" using True by (simp add: field_simps)
    have "of_int \<lfloor>?x\<rfloor> \<le> ?x" by simp
    also have "\<dots> \<le> of_int D" by (rule xD)
    finally have "\<lfloor>?x\<rfloor> \<le> D" by (simp only: of_int_le_iff)
    with D have "?a < 2 ^ 53" by simp
    with x1 xa have "?g = ?x" by (rule round_pos_exact)
    then show ?thesis by simp
  next
    case False
    let ?n = "round_half_even ?x"
    have near: "\<bar>?x - of_int ?n\<bar> < 1 / 2" using False by (rule round_half_even_strict)
    have gap: "\<bar>?x - of_int ?n\<bar> \<le> 1 / 2 - 1 / (2 * of_int q)"
      using q near by (rule quotient_gap)
    have "?x / 2 ^ 53 < 1 / (2 * of_int q)"
    proof -
      have "?x / 2 ^ 53 = of_int D / 2 ^ 52 / (2 * of_int q)" by simp
      also have "\<dots> < 1 / (2 * of_int q)"
        using Dr qr by (intro divide_strict_right_mono) simp_all
      finally show ?thesis .
    qed
    with err gap have "\<bar>?g - of_int ?n\<bar> < 1 / 2" by linarith
    then show ?thesis by (rule round_half_even_near)
  qed
  with td g_lo show ?thesis by blast
qed

lemma round_half_even_ge_int:
  assumes "of_int z \<le> x"
  shows "z \<le> round_half_even x"
proof -
  have "z \<le> \<lfloor>x\<rfloor>" using assms by (simp only: le_floor_iff)
  then show ?thesis by (auto simp: round_half_even_def Let_def)
qed

lemma ge_core:
  fixes x ulp :: rat
  assumes lo: "2 ^ k \<le> x" and ulp: "ulp * 2 ^ p = 2 ^ k" and pos: "0 < ulp"
  shows "2 ^ k \<le> of_int (round_half_even (x / ulp)) * ulp"
proof -
  have "(of_int (2 ^ p) :: rat) = 2 ^ k / ulp"
    using ulp pos by (simp add: field_simps)
  also have "\<dots> \<le> x / ulp" using lo pos by (simp add: divide_right_mono)
  finally have "2 ^ p \<le> round_half_even (x / ulp)" by (rule round_half_even_ge_int)
  then have "(of_int (2 ^ p) :: rat) \<le> of_int (round_half_even (x / ulp))"
    by (simp only: of_int_le_iff)
  then have "of_int (2 ^ p) * ulp \<le> of_int (round_half_even (x / ulp)) * ulp"
    using pos by (intro mult_right_mono) simp_all
  moreover have "of_int (2 ^ p) * ulp = (2::rat) ^ k"
    using ulp by (simp add: mult.commute)
  ultimately show ?thesis by simp
qed

lemma round_pos_to_double_ge_power:
  assumes "2 ^ m \<le> x"
  shows "2 ^ m \<le> round_pos_to_double x"
proof -
  have x1: "1 \<le> x"
  proof -
    have "(1::rat) \<le> 2 ^ m" by simp
    with assms show ?thesis by linarith
  qed
  let ?k = "nat (binary_exponent x)"
  have lo: "2 ^ ?k \<le> x" and hi: "x < 2 ^ Suc ?k"
    using binary_exponent_ge1 [OF x1] by simp_all
  have "(2::rat) ^ m < 2 ^ Suc ?k" using assms hi by linarith
  then have "m < Suc ?k" by (rule power_less_imp_less_exp [rotated]) simp
  then have mk: "(2::rat) ^ m \<le> 2 ^ ?k" by (intro power_increasing) simp_all
  have "2 ^ ?k \<le> round_pos_to_double x"
    unfolding round_pos_to_double_unfold [OF x1]
    by (rule ge_core [OF lo pow2_shift pow2_pos])
  with mk show ?thesis by linarith
qed

lemma float_of_int_overflow:
  assumes "2 ^ 1024 \<le> \<bar>n\<bar>"
  shows "float_of_int n = Inl OverflowError"
proof -
  have a: "(2::rat) ^ 1024 \<le> of_int \<bar>n\<bar>"
    using assms by (metis of_int_le_iff of_int_numeral of_int_power)
  have "2 ^ 1024 \<le> \<bar>round_to_double (of_int n)\<bar>"
  proof (cases "0 < n")
    case True
    then have "2 ^ 1024 \<le> round_pos_to_double (of_int n)"
      using a by (intro round_pos_to_double_ge_power) simp
    with True show ?thesis by (simp add: round_to_double_def)
  next
    case False
    with assms have neg: "n < 0" by (cases "n = 0") simp_all
    then have "2 ^ 1024 \<le> round_pos_to_double (- of_int n)"
      using a by (intro round_pos_to_double_ge_power) simp
    with neg show ?thesis by (simp add: round_to_double_def)
  qed
  then have "double_overflow (round_to_double (of_int n))"
    by (simp add: double_overflow_def)
  then show ?thesis by (simp add: float_of_int_def)
qed

text \<open>
  Three values of the rounding, as Python gives them for \<open>0.1\<close>, \<open>-22 / 7\<close> and
  \<open>float(123456789123456789123456789)\<close>.
\<close>

lemma round_to_double_examples:
  "round_to_double (1 / 10) = 3602879701896397 / 36028797018963968"
  "round_to_double (- 22 / 7) = - 7077085128725065 / 2251799813685248"
  "round_to_double 123456789123456789123456789 = 123456789123456791337762816"
  by code_simp+

section \<open>The claims\<close>

text \<open>
  C1, as the code has it. Take a fetched payload whose result list is not empty and
  whose first element has the shape of the data model, and let the two formatters
  return on its \<open>size\<close> and \<open>downloads\<close>. Then the handler returns the record built
  from the first element alone (the other elements do not occur in it): \<open>name\<close> from
  \<open>name\<close>, \<open>size\<close> and \<open>downloads\<close> from the formatters, \<open>version\<close> from
  \<open>file.vername\<close>, \<open>release_date\<close> from \<open>file.added\<close>, \<open>min_screen\<close> from
  \<open>file.screensize\<close>, \<open>supported_cpu\<close> from \<open>file.cpu\<close>, \<open>package_id\<close> from
  \<open>package\<close>, \<open>sha1_signature\<close> from \<open>file.signature.sha1\<close>, and the five developer
  fields from the attributes CN, O, L, C, ST of the certificate. A missing \<open>file\<close> or
  \<open>signature\<close> is no failure and leaves the fields read through it absent.
\<close>

theorem first_result_metadata:
  assumes "map_of payload ''datalist'' = Some (JObj dl)"
    and "map_of dl ''list'' = Some (JArr (first # rest))"
    and "is_raw_search_result first"
    and "format_size (value_at [''size''] first) = Inr s"
    and "format_downloads (value_at [''downloads''] first) = Inr d"
  shows "get_aptoide_app (Responded 200 (Some (JObj payload))) =
           Inr \<lparr> name = text_at [''name''] first,
                 size_field = s,
                 downloads = d,
                 version = text_at [''file'', ''vername''] first,
                 release_date = text_at [''file'', ''added''] first,
                 min_screen = text_at [''file'', ''screensize''] first,
                 supported_cpu = text_at [''file'', ''cpu''] first,
                 package_id = text_at [''package''] first,
                 sha1_signature = text_at [''file'', ''signature'', ''sha1''] first,
                 developer_cn = certificate_attribute ''CN'' first,
                 organization = certificate_attribute ''O'' first,
                 local_field = certificate_attribute ''L'' first,
                 country = certificate_attribute ''C'' first,
                 state_city = certificate_attribute ''ST'' first \<rparr>
       \<and> (at_path [''file''] first = None \<longrightarrow>
            text_at [''file'', ''vername''] first = None
            \<and> text_at [''file'', ''added''] first = None
            \<and> text_at [''file'', ''screensize''] first = None
            \<and> text_at [''file'', ''cpu''] first = None)
       \<and> (at_path [''file'', ''signature''] first = None \<longrightarrow>
            text_at [''file'', ''signature'', ''sha1''] first = None
            \<and> certificate_attribute ''CN'' first = None
            \<and> certificate_attribute ''O'' first = None
            \<and> certificate_attribute ''L'' first = None
            \<and> certificate_attribute ''C'' first = None
            \<and> certificate_attribute ''ST'' first = None)"
proof -
  obtain a where a: "first = JObj a"
    using assms(3) by (auto simp: is_raw_search_result_def split: json.splits)
  have "get_aptoide_app (Responded 200 (Some (JObj payload))) = build_response first"
    using handler_on_list [OF assms(1,2)] by simp
  then have 1: "get_aptoide_app (Responded 200 (Some (JObj payload))) = Inr (metadata_of first s d)"
    using build_response_shaped [OF assms(3)] assms(4,5) by simp
  have 2: "text_at [''file'', k] first = None" if "at_path [''file''] first = None" for k
    using that by (auto simp: a text_at_def split: option.splits)
  have 3: "text_at [''file'', ''signature'', k] first = None"
    if "at_path [''file'', ''signature''] first = None" for k
    using that by (cases "map_of a ''file''"; cases "the (map_of a ''file'')")
      (auto simp: a text_at_def split: option.splits)
  have 4: "certificate_attribute k first = None"
    if "at_path [''file'', ''signature''] first = None" for k
    using 3 [OF that] by (simp add: certificate_attribute_def)
  show ?thesis
    using 1 2 3 4 by (simp add: metadata_of_def)
qed

theorem first_result_metadata_witness:
  "get_aptoide_app (Responded 200 (Some (JObj
      [(''datalist'', JObj [(''list'', JArr
             [JObj [(''name'', JStr ''Test App''), (''size'', JInt 20971520),
                    (''downloads'', JInt 2000000), (''package'', JStr ''com.test.app''),
                    (''file'', JObj [(''vername'', JStr ''1.0.0''), (''added'', JStr ''2025-01-01''),
                       (''screensize'', JStr ''SMALL''), (''cpu'', JStr ''arm64-v8a''),
                       (''signature'', JObj [(''sha1'', JStr ''AA:BB:CC''),
                          (''owner'', JStr ''CN=Dev, O=Org, L=City, ST=State, C=US'')])])],
              JObj [(''name'', JStr ''Other App'')]])])])))
   = Inr \<lparr> name = Some ''Test App'', size_field = Some ''20 MB'', downloads = Some ''2M'',
           version = Some ''1.0.0'', release_date = Some ''2025-01-01'',
           min_screen = Some ''SMALL'', supported_cpu = Some ''arm64-v8a'',
           package_id = Some ''com.test.app'', sha1_signature = Some ''AA:BB:CC'',
           developer_cn = Some ''Dev'', organization = Some ''Org'',
           local_field = Some ''City'', country = Some ''US'', state_city = Some ''State'' \<rparr>"
proof -
  let ?first = "JObj [(''name'', JStr ''Test App''), (''size'', JInt 20971520),
                    (''downloads'', JInt 2000000), (''package'', JStr ''com.test.app''),
                    (''file'', JObj [(''vername'', JStr ''1.0.0''), (''added'', JStr ''2025-01-01''),
                       (''screensize'', JStr ''SMALL''), (''cpu'', JStr ''arm64-v8a''),
                       (''signature'', JObj [(''sha1'', JStr ''AA:BB:CC''),
                          (''owner'', JStr ''CN=Dev, O=Org, L=City, ST=State, C=US'')])])]"
  let ?rest = "[JObj [(''name'', JStr ''Other App'')]]"
  let ?dl = "[(''list'', JArr (?first # ?rest))]"
  have h1: "map_of [(''datalist'', JObj ?dl)] ''datalist'' = Some (JObj ?dl)" by simp
  have h2: "map_of ?dl ''list'' = Some (JArr (?first # ?rest))" by simp
  have h3: "is_raw_search_result ?first" by code_simp
  have h4: "format_size (value_at [''size''] ?first) = Inr (Some ''20 MB'')" by code_simp
  have h5: "format_downloads (value_at [''downloads''] ?first) = Inr (Some ''2M'')" by code_simp
  have e: "text_at [''name''] ?first = Some ''Test App''"
    "text_at [''file'', ''vername''] ?first = Some ''1.0.0''"
    "text_at [''file'', ''added''] ?first = Some ''2025-01-01''"
    "text_at [''file'', ''screensize''] ?first = Some ''SMALL''"
    "text_at [''file'', ''cpu''] ?first = Some ''arm64-v8a''"
    "text_at [''package''] ?first = Some ''com.test.app''"
    "text_at [''file'', ''signature'', ''sha1''] ?first = Some ''AA:BB:CC''"
    "certificate_attribute ''CN'' ?first = Some ''Dev''"
    "certificate_attribute ''O'' ?first = Some ''Org''"
    "certificate_attribute ''L'' ?first = Some ''City''"
    "certificate_attribute ''C'' ?first = Some ''US''"
    "certificate_attribute ''ST'' ?first = Some ''State''"
    by code_simp+
  show ?thesis
    using first_result_metadata [OF h1 h2 h3 h4 h5, THEN conjunct1] unfolding e .
qed

text \<open>
  The claim C1 as it was stated fails: the result list is not empty, the first result
  carries \<open>"file": null\<close>, and the handler raises instead of returning a record
  (\<open>.get("file", {})\<close> returns the \<open>None\<close> that is stored, which has no \<open>get\<close>).
\<close>

theorem null_file_is_no_record:
  "get_aptoide_app (Responded 200 (Some (JObj
      [(''datalist'', JObj [(''list'', JArr [JObj [(''name'', JStr ''App''), (''file'', JNull)]])])])))
   = Inl AttributeError"
  by code_simp

text \<open>
  C2, as the code has it. For a byte count \<open>B\<close> with \<open>0 < B < 2 ^ 53\<close> the size
  formatter returns the number \<open>B / 1024 ^ k\<close> rounded to an integer (ties to even),
  a space and the \<open>k\<close>-th of the units B, KB, MB, GB, TB, where \<open>k\<close> is the
  smallest exponent with \<open>B / 1024 ^ k < 1024\<close>, and \<open>k = 4\<close> when there is none
  below 4. Below \<open>2 ^ 53\<close> the conversion to a float and the divisions by 1024 are
  exact.
\<close>

theorem format_size_units:
  assumes "0 < B" and "B < 2 ^ 53"
  shows "\<exists>k\<le>4.
           format_size (JInt B) =
             Inr (Some (str_int (round_half_even (of_int B / 1024 ^ k))
                        @ '' '' @ [''B'', ''KB'', ''MB'', ''GB'', ''TB''] ! k))
           \<and> (\<forall>j<k. \<not> of_int B / 1024 ^ j < (1024::rat))
           \<and> (k < 4 \<longrightarrow> of_int B / 1024 ^ k < (1024::rat))"
proof -
  let ?b = "of_int B :: rat"
  have "\<bar>B\<bar> < 2 ^ 53" using assms by simp
  then have fl: "float_of_int B = Inr ?b" by (rule float_of_int_exact)
  have fs: "format_size (JInt B) = Inr (Some (size_loop [''B'', ''KB'', ''MB'', ''GB''] ?b))"
    using assms(1) fl by (simp add: format_size_def)
  note loop = size_loop_exact [OF assms]
  have big: "\<not> ?b / 1024 ^ j < 1024" if "j < k" "\<not> B < 1024 ^ k" for j k
  proof -
    have "(1024::int) ^ Suc j \<le> 1024 ^ k"
      using that(1) by (intro power_increasing) simp_all
    with that(2) have "1024 ^ Suc j \<le> B" by simp
    then have "(of_int (1024 ^ Suc j) :: rat) \<le> ?b" by (simp only: of_int_le_iff)
    then show ?thesis by (simp add: field_simps)
  qed
  have small: "?b / 1024 ^ k < 1024" if "B < 1024 ^ Suc k" for k
  proof -
    have "?b < of_int (1024 ^ Suc k)" using that by (simp only: of_int_less_iff)
    then show ?thesis by (simp add: field_simps)
  qed
  have nn: "0 \<le> ?b / 1024 ^ k" for k using assms(1) by simp
  consider (a) "B < 1024"
    | (b) "\<not> B < 1024" "B < 1024 ^ 2"
    | (c) "\<not> B < 1024 ^ 2" "B < 1024 ^ 3"
    | (d) "\<not> B < 1024 ^ 3" "B < 1024 ^ 4"
    | (e) "\<not> B < 1024 ^ 4"
    by linarith
  then show ?thesis
  proof cases
    case a
    have "format_size (JInt B) = Inr (Some (str_int (round_half_even (?b / 1024 ^ 0)) @ '' '' @ [''B'', ''KB'', ''MB'', ''GB'', ''TB''] ! 0))"
      using a fs loop fmt_f0_nonneg [OF nn [of 0]] by simp
    moreover have "?b / 1024 ^ 0 < 1024" using a small [of 0] by simp
    ultimately show ?thesis by (intro exI [of _ 0]) simp
  next
    case b
    have "format_size (JInt B) = Inr (Some (str_int (round_half_even (?b / 1024 ^ 1)) @ '' '' @ [''B'', ''KB'', ''MB'', ''GB'', ''TB''] ! 1))"
      using b fs loop fmt_f0_nonneg [OF nn [of 1]] by simp
    moreover have "?b / 1024 ^ 1 < 1024" using b small [of 1] by simp
    moreover have "\<forall>j<1. \<not> ?b / 1024 ^ j < 1024" using big [of _ 1] b by simp
    ultimately show ?thesis by (intro exI [of _ 1]) simp
  next
    case c
    have "format_size (JInt B) = Inr (Some (str_int (round_half_even (?b / 1024 ^ 2)) @ '' '' @ [''B'', ''KB'', ''MB'', ''GB'', ''TB''] ! 2))"
      using c fs loop fmt_f0_nonneg [OF nn [of 2]] by simp
    moreover have "?b / 1024 ^ 2 < 1024" using c small [of 2] by simp
    moreover have "\<forall>j<2. \<not> ?b / 1024 ^ j < 1024" using big [of _ 2] c by blast
    ultimately show ?thesis by (intro exI [of _ 2]) simp
  next
    case d
    have "format_size (JInt B) = Inr (Some (str_int (round_half_even (?b / 1024 ^ 3)) @ '' '' @ [''B'', ''KB'', ''MB'', ''GB'', ''TB''] ! 3))"
      using d fs loop fmt_f0_nonneg [OF nn [of 3]] by simp
    moreover have "?b / 1024 ^ 3 < 1024" using d small [of 3] by simp
    moreover have "\<forall>j<3. \<not> ?b / 1024 ^ j < 1024" using big [of _ 3] d by blast
    ultimately show ?thesis by (intro exI [of _ 3]) simp
  next
    case e
    have "format_size (JInt B) = Inr (Some (str_int (round_half_even (?b / 1024 ^ 4)) @ '' '' @ [''B'', ''KB'', ''MB'', ''GB'', ''TB''] ! 4))"
      using e fs loop fmt_f0_nonneg [OF nn [of 4]] by simp
    moreover have "\<forall>j<4. \<not> ?b / 1024 ^ j < 1024" using big [of _ 4] e by blast
    ultimately show ?thesis by (intro exI [of _ 4]) simp
  qed
qed

theorem format_size_units_witness:
  "format_size (JInt 20971520) = Inr (Some ''20 MB'')"
proof -
  let ?B = "20971520 :: int"
  have h: "0 < ?B" "?B < 2 ^ 53" by simp_all
  obtain k where k: "k \<le> 4"
    and eq: "format_size (JInt ?B) =
             Inr (Some (str_int (round_half_even (of_int ?B / 1024 ^ k))
                        @ '' '' @ [''B'', ''KB'', ''MB'', ''GB'', ''TB''] ! k))"
    and least: "\<forall>j<k. \<not> of_int ?B / 1024 ^ j < (1024::rat)"
    and found: "k < 4 \<longrightarrow> of_int ?B / 1024 ^ k < (1024::rat)"
    using format_size_units [OF h] by blast
  have "\<not> 2 < k"
  proof
    assume "2 < k"
    with least have "\<not> of_int ?B / 1024 ^ 2 < (1024::rat)" by blast
    then show False by simp
  qed
  moreover have "k \<noteq> 0" using found by (intro notI) simp
  moreover have "k \<noteq> 1" using found by (intro notI) simp
  ultimately have "k = 2" by linarith
  moreover have "str_int (round_half_even (of_int ?B / 1024 ^ 2)) = ''20''" by code_simp
  ultimately show ?thesis using eq by simp
qed

text \<open>
  The claim C2 as it was stated fails above \<open>2 ^ 53\<close>. The byte count
  \<open>2 ^ 53 + 2 ^ 39 + 1\<close> belongs to the unit TB, and divided by \<open>1024 ^ 4\<close> it rounds
  to 8193; but \<open>float\<close> rounds it to \<open>2 ^ 53 + 2 ^ 39\<close> first, which gives the tie
  8192.5 and the output \<open>8192 TB\<close>.
\<close>

theorem format_size_beyond_double_precision:
  "format_size (JInt 9007749010554881) = Inr (Some ''8192 TB'')
   \<and> str_int (round_half_even (of_int 9007749010554881 / 1024 ^ 4)) = ''8193''
   \<and> \<not> of_int 9007749010554881 / 1024 ^ 3 < (1024::rat)"
  by code_simp

text \<open>
  C3, as the code has it. The download formatter gives no value for the absent count
  and for zero; the decimal string of \<open>D\<close> for \<open>1 \<le> D \<le> 999\<close>; \<open>D / 1000\<close> rounded
  to an integer (ties to even) and \<open>K\<close> for \<open>1000 \<le> D \<le> 999999\<close>; \<open>D / 10 ^ 6\<close>
  rounded and \<open>M\<close> for \<open>10 ^ 6 \<le> D < 10 ^ 9\<close>; and \<open>D / 10 ^ 9\<close> rounded and \<open>B\<close>
  for \<open>10 ^ 9 \<le> D < 2 ^ 52\<close>. In that range the rounding of the quotient to a
  double does not change the integer it rounds to.
\<close>

theorem format_downloads_tiers:
  "format_downloads JNull = Inr None
   \<and> format_downloads (JInt 0) = Inr None
   \<and> (1 \<le> D \<and> D \<le> 999 \<longrightarrow> format_downloads (JInt D) = Inr (Some (str_int D)))
   \<and> (1000 \<le> D \<and> D \<le> 999999 \<longrightarrow>
        format_downloads (JInt D)
          = Inr (Some (str_int (round_half_even (of_int D / 1000)) @ ''K'')))
   \<and> (1000000 \<le> D \<and> D < 1000000000 \<longrightarrow>
        format_downloads (JInt D)
          = Inr (Some (str_int (round_half_even (of_int D / 1000000)) @ ''M'')))
   \<and> (1000000000 \<le> D \<and> D < 2 ^ 52 \<longrightarrow>
        format_downloads (JInt D)
          = Inr (Some (str_int (round_half_even (of_int D / 1000000000)) @ ''B'')))"
proof -
  have tier: "bindE (int_truediv D q) (\<lambda>g. Inr (Some (fmt_f0 g @ suffix)))
                = Inr (Some (str_int (round_half_even (of_int D / of_int q)) @ suffix))"
    if h: "0 < q" "q \<le> D" "D < 2 ^ 52" for q suffix
  proof -
    obtain g where g: "int_truediv D q = Inr g" "0 \<le> g"
      "round_half_even g = round_half_even (of_int D / of_int q)"
      using int_truediv_rounds [OF h] by blast
    then show ?thesis by (simp add: fmt_f0_nonneg)
  qed
  have 0: "format_downloads JNull = Inr None" "format_downloads (JInt 0) = Inr None"
    by (simp_all add: format_downloads_def)
  have 1: "format_downloads (JInt D) = Inr (Some (str_int D))" if "1 \<le> D" "D \<le> 999"
    using that by (simp add: format_downloads_def)
  have 2: "format_downloads (JInt D)
          = Inr (Some (str_int (round_half_even (of_int D / 1000)) @ ''K''))"
    if "1000 \<le> D" "D \<le> 999999"
    using that tier [of 1000 "''K''"] by (simp add: format_downloads_def)
  have 3: "format_downloads (JInt D)
          = Inr (Some (str_int (round_half_even (of_int D / 1000000)) @ ''M''))"
    if "1000000 \<le> D" "D < 1000000000"
    using that tier [of 1000000 "''M''"] by (simp add: format_downloads_def)
  have 4: "format_downloads (JInt D)
          = Inr (Some (str_int (round_half_even (of_int D / 1000000000)) @ ''B''))"
    if "1000000000 \<le> D" "D < 2 ^ 52"
    using that tier [of 1000000000 "''B''"] by (simp add: format_downloads_def)
  from 0 1 2 3 4 show ?thesis by blast
qed

theorem format_downloads_tiers_witness:
  "format_downloads (JInt 2000000) = Inr (Some ''2M'')
   \<and> format_downloads (JInt 999500) = Inr (Some ''1000K'')
   \<and> format_downloads (JInt 2500) = Inr (Some ''2K'')
   \<and> format_downloads (JInt 999) = Inr (Some ''999'')
   \<and> format_downloads (JInt 7500000000) = Inr (Some ''8B'')"
proof -
  have "str_int (round_half_even (of_int 2000000 / 1000000)) = ''2''"
    and "str_int (round_half_even (of_int 999500 / 1000)) = ''1000''"
    and "str_int (round_half_even (of_int 2500 / 1000)) = ''2''"
    and "str_int 999 = ''999''"
    and "str_int (round_half_even (of_int 7500000000 / 1000000000)) = ''8''"
    by code_simp+
  then show ?thesis
    using format_downloads_tiers [of 2000000] format_downloads_tiers [of 999500]
      format_downloads_tiers [of 2500] format_downloads_tiers [of 999]
      format_downloads_tiers [of 7500000000]
    by simp
qed

text \<open>
  The claim C3 as it was stated fails for large counts. For
  \<open>D = 16777216500000001\<close> the quotient \<open>D / 10 ^ 9\<close> lies just above the tie
  16777216.5 and rounds to 16777217; the float division returns the tie itself, and
  the output is \<open>16777216B\<close>.
\<close>

theorem format_downloads_beyond_double_precision:
  "format_downloads (JInt 16777216500000001) = Inr (Some ''16777216B'')
   \<and> str_int (round_half_even (of_int 16777216500000001 / 1000000000)) @ ''B'' = ''16777217B''"
  by code_simp

text \<open>
  C4, as the code has it. For a payload with a result list, the handler fails with the
  404 error ``Package not found'' exactly when the list is empty. With a non-empty list
  it raises no \<open>HTTPException\<close> at all, and it returns a response when the first
  element has the shape of the data model and the formatters return on its \<open>size\<close>
  and \<open>downloads\<close>.
\<close>

theorem not_found_iff_empty_list:
  assumes "map_of payload ''datalist'' = Some (JObj dl)"
    and "map_of dl ''list'' = Some (JArr apps)"
  shows "(get_aptoide_app (Responded 200 (Some (JObj payload)))
            = Inl (HTTPException 404 ''Package not found'')) = (apps = [])
       \<and> (apps \<noteq> [] \<longrightarrow>
            (\<forall>code detail. get_aptoide_app (Responded 200 (Some (JObj payload)))
                \<noteq> Inl (HTTPException code detail)))
       \<and> (apps \<noteq> [] \<and> is_raw_search_result (hd apps)
            \<and> (\<exists>s. format_size (value_at [''size''] (hd apps)) = Inr s)
            \<and> (\<exists>d. format_downloads (value_at [''downloads''] (hd apps)) = Inr d)
          \<longrightarrow> (\<exists>response. get_aptoide_app (Responded 200 (Some (JObj payload))) = Inr response))"
proof (cases apps)
  case Nil
  then show ?thesis using handler_on_list [OF assms] by simp
next
  case (Cons first rest)
  then have h: "get_aptoide_app (Responded 200 (Some (JObj payload))) = build_response first"
    using handler_on_list [OF assms] by simp
  have 1: "get_aptoide_app (Responded 200 (Some (JObj payload))) \<noteq> Inl (HTTPException code detail)"
    for code detail
    using no_http_build_response [of first] h by (simp add: no_http_def)
  have 2: "\<exists>response. get_aptoide_app (Responded 200 (Some (JObj payload))) = Inr response"
    if "is_raw_search_result first"
      and "\<exists>s. format_size (value_at [''size''] first) = Inr s"
      and "\<exists>d. format_downloads (value_at [''downloads''] first) = Inr d"
    using that h build_response_shaped [of first] by auto
  show ?thesis using Cons 1 2 by simp
qed

theorem not_found_iff_empty_list_witness:
  "get_aptoide_app (Responded 200 (Some (JObj [(''datalist'', JObj [(''list'', JArr [])])])))
     = Inl (HTTPException 404 ''Package not found'')
   \<and> (\<exists>response. get_aptoide_app (Responded 200 (Some (JObj
         [(''datalist'', JObj [(''list'', JArr
            [JObj [(''name'', JStr ''App''), (''size'', JInt 1536),
                   (''file'', JObj [(''signature'', JObj [(''owner'', JStr ''CN=Dev'')])])]])])])))
          = Inr response)"
proof -
  let ?first = "JObj [(''name'', JStr ''App''), (''size'', JInt 1536),
                   (''file'', JObj [(''signature'', JObj [(''owner'', JStr ''CN=Dev'')])])]"
  have a: "map_of [(''datalist'', JObj [(''list'', JArr [])])] ''datalist''
             = Some (JObj [(''list'', JArr [])])"
    and b: "map_of [(''list'', JArr [])] ''list'' = Some (JArr [])"
    by simp_all
  have c: "map_of [(''datalist'', JObj [(''list'', JArr [?first])])] ''datalist''
             = Some (JObj [(''list'', JArr [?first])])"
    and d: "map_of [(''list'', JArr [?first])] ''list'' = Some (JArr [?first])"
    by simp_all
  have e: "is_raw_search_result ?first" by code_simp
  have f: "format_size (value_at [''size''] ?first) = Inr (Some ''2 KB'')" by code_simp
  have g: "format_downloads (value_at [''downloads''] ?first) = Inr None" by code_simp
  show ?thesis
    using not_found_iff_empty_list [OF a b] not_found_iff_empty_list [OF c d] e f g
    by simp
qed

text \<open>
  The claim C4 as it was stated fails: the result list is not empty, the first result
  carries \<open>"signature": null\<close> in its \<open>file\<close>, and the handler does not return a
  success response (\<open>signature.get("sha1")\<close> raises on \<open>None\<close>).
\<close>

theorem null_signature_is_no_success:
  "get_aptoide_app (Responded 200 (Some (JObj
      [(''datalist'', JObj [(''list'', JArr
          [JObj [(''name'', JStr ''App''), (''file'', JObj [(''signature'', JNull)])]])])])))
   = Inl AttributeError"
  by code_simp

text \<open>
  C5. For an input object whose \<open>owner\<close> is a string, the certificate parser returns the
  five fields \<open>developer_cn\<close>, \<open>organization\<close>, \<open>local\<close>, \<open>state_city\<close>, \<open>country\<close>
  with the values of the attributes CN, O, L, ST, C as the specification reads them
  (\<open>dn_attribute\<close>): a key that no segment carries gives an absent field, other keys
  and segments without \<open>=\<close> have no effect. The remaining conjuncts say what the three
  string operations are: the comma segments joined by commas are the owner string and
  none contains a comma; a segment with \<open>=\<close> is its key, the first \<open>=\<close> and its value,
  so that the value keeps any further \<open>=\<close>; trimming removes exactly the white space at
  both ends.
\<close>

theorem parse_certificate_owner_string:
  assumes "map_of cert ''owner'' = Some (JStr owner)"
  shows "parse_certificate (JObj cert) =
           Inr (JObj [(''developer_cn'', opt_json (dn_attribute ''CN'' owner)),
                      (''organization'', opt_json (dn_attribute ''O'' owner)),
                      (''local'', opt_json (dn_attribute ''L'' owner)),
                      (''state_city'', opt_json (dn_attribute ''ST'' owner)),
                      (''country'', opt_json (dn_attribute ''C'' owner))])
       \<and> join_with CHR '','' (split_on CHR '','' owner) = owner
       \<and> (\<forall>seg \<in> set (split_on CHR '','' owner). CHR '','' \<notin> set seg)
       \<and> (\<forall>seg. CHR ''='' \<in> set seg \<longrightarrow>
             seg = fst (split_first CHR ''='' seg) @ CHR ''='' # snd (split_first CHR ''='' seg)
             \<and> CHR ''='' \<notin> set (fst (split_first CHR ''='' seg)))
       \<and> (\<forall>s. (\<exists>l r. s = l @ strip s @ r
                    \<and> (\<forall>c \<in> set l. py_isspace c) \<and> (\<forall>c \<in> set r. py_isspace c))
                \<and> (strip s \<noteq> [] \<longrightarrow>
                      \<not> py_isspace (hd (strip s)) \<and> \<not> py_isspace (last (strip s))))"
  using parse_certificate_owner [OF assms] join_split_on split_on_no_sep
    split_first_parts strip_parts strip_ends
  by blast

theorem parse_certificate_owner_string_witness:
  "parse_certificate
     (JObj [(''sha1'', JStr ''AA:BB:CC''),
            (''owner'', JStr ''CN=Dev=1, junk, X=Y, O= Org ,C=US'')])
   = Inr (JObj [(''developer_cn'', JStr ''Dev=1''),
                (''organization'', JStr ''Org''),
                (''local'', JNull),
                (''state_city'', JNull),
                (''country'', JStr ''US'')])"
proof -
  let ?owner = "''CN=Dev=1, junk, X=Y, O= Org ,C=US''"
  have h: "map_of [(''sha1'', JStr ''AA:BB:CC''), (''owner'', JStr ?owner)] ''owner''
             = Some (JStr ?owner)"
    by simp
  have "dn_attribute ''CN'' ?owner = Some ''Dev=1''"
    and "dn_attribute ''O'' ?owner = Some ''Org''"
    and "dn_attribute ''L'' ?owner = None"
    and "dn_attribute ''ST'' ?owner = None"
    and "dn_attribute ''C'' ?owner = Some ''US''"
    by code_simp+
  then show ?thesis
    using parse_certificate_owner_string [OF h] by (simp add: opt_json_def)
qed

text \<open>
  C6, as the code has it. The parser returns on the absent object, on every object
  without \<open>owner\<close> and on every object whose \<open>owner\<close> is a string. The first two give the
  empty mapping; an empty owner string gives the five fields, all absent. The output
  never has the key \<open>owner\<close>, so the parser applied to its own output gives the empty
  mapping: the second result is the first only for an input without an owner.
\<close>

theorem parse_certificate_total_and_reapplied:
  "parse_certificate JNull = Inr (JObj [])
   \<and> (map_of cert ''owner'' = None \<longrightarrow> parse_certificate (JObj cert) = Inr (JObj []))
   \<and> (map_of cert ''owner'' = Some (JStr owner) \<longrightarrow>
        (\<exists>parsed. parse_certificate (JObj cert) = Inr parsed \<and> parsed \<noteq> JObj []))
   \<and> (map_of cert ''owner'' = None \<or> map_of cert ''owner'' = Some (JStr owner) \<longrightarrow>
        bindE (parse_certificate (JObj cert)) parse_certificate = Inr (JObj []))
   \<and> parse_certificate (JObj [(''owner'', JStr [])])
        = Inr (JObj [(''developer_cn'', JNull), (''organization'', JNull),
                     (''local'', JNull), (''state_city'', JNull), (''country'', JNull)])"
proof -
  have 1: "parse_certificate JNull = Inr (JObj [])"
    by (simp add: parse_certificate_def)
  have 2: "parse_certificate (JObj c) = Inr (JObj [])" if "map_of c ''owner'' = None" for c
    using that by (simp add: parse_certificate_def)
  have 3: "\<exists>parsed. parse_certificate (JObj cert) = Inr parsed \<and> parsed \<noteq> JObj []
             \<and> bindE (parse_certificate (JObj cert)) parse_certificate = Inr (JObj [])"
    if "map_of cert ''owner'' = Some (JStr owner)"
    using parse_certificate_owner [OF that] by (simp add: parse_certificate_def)
  have 4: "bindE (parse_certificate (JObj cert)) parse_certificate = Inr (JObj [])"
    if "map_of cert ''owner'' = None"
    using 2 [OF that] 1 by (simp add: parse_certificate_def)
  have 5: "parse_certificate (JObj [(''owner'', JStr [])])
        = Inr (JObj [(''developer_cn'', JNull), (''organization'', JNull),
                     (''local'', JNull), (''state_city'', JNull), (''country'', JNull)])"
    by (simp add: parse_certificate_def opt_json_def)
  from 1 2 3 4 5 show ?thesis by blast
qed

theorem parse_certificate_total_and_reapplied_witness:
  "parse_certificate (JObj [(''sha1'', JStr ''AA:BB:CC'')]) = Inr (JObj [])
   \<and> (\<exists>parsed. parse_certificate (JObj [(''owner'', JStr ''CN=Dev'')]) = Inr parsed
                \<and> parsed \<noteq> JObj [])
   \<and> bindE (parse_certificate (JObj [(''owner'', JStr ''CN=Dev'')])) parse_certificate
        = Inr (JObj [])"
  using parse_certificate_total_and_reapplied [of "[(''sha1'', JStr ''AA:BB:CC'')]" "''x''"]
    parse_certificate_total_and_reapplied [of "[(''owner'', JStr ''CN=Dev'')]" "''CN=Dev''"]
  by simp

text \<open>
  The claim C6 as it was stated fails: parsing the output of the parser on
  \<open>{"owner": "CN=Dev"}\<close> does not give that output again.
\<close>

theorem parse_certificate_not_idempotent:
  "bindE (parse_certificate (JObj [(''owner'', JStr ''CN=Dev'')])) parse_certificate
     \<noteq> parse_certificate (JObj [(''owner'', JStr ''CN=Dev'')])"
  by code_simp

text \<open>
  C7, as the code has it. The fetcher returns a document exactly when the remote
  answers 200 with a body that decodes to that document. It fails with the 500 error
  exactly when the request raises (no connection, a timeout) or the status is not 200;
  when the request raises, the detail is ``Connection error while requesting Aptoide: ''
  followed by the text of the cause. A 200 answer whose body is not JSON ends in the
  decoding error of \<open>response.json()\<close>, which is neither.
\<close>

theorem fetch_from_aptoide_outcomes:
  "(fetch_from_aptoide outcome = Inr data) = (outcome = Responded 200 (Some data))
   \<and> ((\<exists>detail. fetch_from_aptoide outcome = Inl (HTTPException 500 detail))
        = ((\<exists>cause. outcome = RequestFailed cause)
           \<or> (\<exists>status_code body. outcome = Responded status_code body \<and> status_code \<noteq> 200)))
   \<and> fetch_from_aptoide (RequestFailed cause)
        = Inl (HTTPException 500 (''Connection error while requesting Aptoide: '' @ cause))
   \<and> has_substring ''Connection error'' (''Connection error while requesting Aptoide: '' @ cause)
   \<and> has_substring cause (''Connection error while requesting Aptoide: '' @ cause)
   \<and> fetch_from_aptoide (Responded 200 None) = Inl JSONDecodeError"
proof -
  have 1: "(fetch_from_aptoide outcome = Inr data) = (outcome = Responded 200 (Some data))"
    by (cases outcome) (auto simp: fetch_from_aptoide_def split: option.splits)
  have 2: "(\<exists>detail. fetch_from_aptoide outcome = Inl (HTTPException 500 detail))
        = ((\<exists>cause. outcome = RequestFailed cause)
           \<or> (\<exists>status_code body. outcome = Responded status_code body \<and> status_code \<noteq> 200))"
    by (cases outcome) (auto simp: fetch_from_aptoide_def split: option.splits)
  have 3: "has_substring ''Connection error''
             (''Connection error while requesting Aptoide: '' @ cause)"
    using has_substring_trans_prefix
      [of "''Connection error''" "'' while requesting Aptoide: ''" cause]
    by simp
  have 4: "has_substring cause (''Connection error while requesting Aptoide: '' @ cause)"
    by (rule has_substring_suffix)
  show ?thesis
    using 1 2 3 4 by (simp add: fetch_from_aptoide_def)
qed

text \<open>
  The claim C7 as it was stated fails: the remote answers 200 with a body that is not
  JSON, and the fetcher neither returns a document nor fails with the 500 error.
\<close>

theorem fetch_200_without_json:
  "fetch_from_aptoide (Responded 200 None) = Inl JSONDecodeError"
  by (simp add: fetch_from_aptoide_def)

text \<open>
  C8. The size formatter gives no value for the byte count zero and for the absent
  byte count; and when the first result's \<open>size\<close> is missing, \<open>null\<close> or zero, the
  \<open>size\<close> field of the response that the handler returns is absent, not \<open>"0 B"\<close>.
\<close>

theorem zero_or_absent_size:
  assumes "map_of payload ''datalist'' = Some (JObj dl)"
    and "map_of dl ''list'' = Some (JArr (JObj a # rest))"
    and "map_of a ''size'' = None \<or> map_of a ''size'' = Some JNull \<or> map_of a ''size'' = Some (JInt 0)"
    and "get_aptoide_app (Responded 200 (Some (JObj payload))) = Inr response"
  shows "format_size JNull = Inr None \<and> format_size (JInt 0) = Inr None
       \<and> size_field response = None \<and> size_field response \<noteq> Some ''0 B''"
proof -
  have 1: "format_size JNull = Inr None" "format_size (JInt 0) = Inr None"
    by (simp_all add: format_size_def)
  have "build_response (JObj a) = Inr response"
    using handler_on_list [OF assms(1,2)] assms(4) by simp
  then have "format_size (case map_of a ''size'' of None \<Rightarrow> JNull | Some v \<Rightarrow> v) = Inr (size_field response)"
    by (rule build_response_size)
  with assms(3) 1 have "size_field response = None" by auto
  with 1 show ?thesis by simp
qed

theorem zero_or_absent_size_witness:
  "get_aptoide_app (Responded 200 (Some (JObj
      [(''datalist'', JObj [(''list'', JArr
         [JObj [(''name'', JStr ''App''), (''size'', JInt 0),
                (''file'', JObj [(''signature'', JObj [(''owner'', JStr ''CN=Dev'')])])]])])])))
     = Inr \<lparr> name = Some ''App'', size_field = None, downloads = None, version = None,
             release_date = None, min_screen = None, supported_cpu = None, package_id = None,
             sha1_signature = None, developer_cn = Some ''Dev'', organization = None,
             local_field = None, country = None, state_city = None \<rparr>
   \<and> size_field \<lparr> name = Some ''App'', size_field = None, downloads = None, version = None,
             release_date = None, min_screen = None, supported_cpu = None, package_id = None,
             sha1_signature = None, developer_cn = Some ''Dev'', organization = None,
             local_field = None, country = None, state_city = None \<rparr> = None"
proof -
  let ?a = "[(''name'', JStr ''App''), (''size'', JInt 0),
             (''file'', JObj [(''signature'', JObj [(''owner'', JStr ''CN=Dev'')])])]"
  let ?dl = "[(''list'', JArr [JObj ?a])]"
  let ?r = "\<lparr> name = Some ''App'', size_field = None, downloads = None, version = None,
             release_date = None, min_screen = None, supported_cpu = None, package_id = None,
             sha1_signature = None, developer_cn = Some ''Dev'', organization = None,
             local_field = None, country = None, state_city = None \<rparr>"
  have h1: "map_of [(''datalist'', JObj ?dl)] ''datalist'' = Some (JObj ?dl)" by simp
  have h2: "map_of ?dl ''list'' = Some (JArr (JObj ?a # []))" by simp
  have h3: "map_of ?a ''size'' = None \<or> map_of ?a ''size'' = Some JNull
              \<or> map_of ?a ''size'' = Some (JInt 0)"
    by simp
  have h4: "get_aptoide_app (Responded 200 (Some (JObj [(''datalist'', JObj ?dl)]))) = Inr ?r"
    by code_simp
  show ?thesis
    using zero_or_absent_size [OF h1 h2 h3 h4] h4 by simp
qed

text \<open>
  C9, as the code has it. A fetched payload that is an object without the key
  \<open>datalist\<close>, or whose \<open>datalist\<close> is an object without the key \<open>list\<close>, gets
  the answer of an empty result list: the handler fails with the 404 error
  ``Package not found'', and no missing-key or type error is raised.
\<close>

theorem missing_keys_not_found:
  assumes "map_of payload ''datalist'' = None \<or>
           (\<exists>dl. map_of payload ''datalist'' = Some (JObj dl) \<and> map_of dl ''list'' = None)"
  shows "get_aptoide_app (Responded 200 (Some (JObj payload)))
           = Inl (HTTPException 404 ''Package not found'')
       \<and> get_aptoide_app (Responded 200 (Some (JObj payload)))
           = get_aptoide_app
               (Responded 200 (Some (JObj [(''datalist'', JObj [(''list'', JArr [])])])))"
  using assms by (auto simp add: get_aptoide_app_def fetch_from_aptoide_def)

theorem missing_keys_not_found_witness:
  "get_aptoide_app (Responded 200 (Some (JObj [(''datalist'', JObj [(''total'', JInt 0)])])))
     = Inl (HTTPException 404 ''Package not found'')
   \<and> get_aptoide_app (Responded 200 (Some (JObj [(''total'', JInt 0)])))
     = Inl (HTTPException 404 ''Package not found'')"
  using missing_keys_not_found [of "[(''datalist'', JObj [(''total'', JInt 0)])]"]
    missing_keys_not_found [of "[(''total'', JInt 0)]"]
  by simp

text \<open>
  The claim C9 as it was stated fails: in the payload \<open>{"datalist": null}\<close> the
  value of \<open>datalist\<close> has no key \<open>list\<close>, and the handler does not answer 404 but
  raises (\<open>.get("datalist", {})\<close> returns the \<open>None\<close> that is stored, which has no
  \<open>get\<close>). The default applies to a missing key only.
\<close>

theorem null_datalist_is_no_not_found:
  "get_aptoide_app (Responded 200 (Some (JObj [(''datalist'', JNull)]))) = Inl AttributeError"
  by (simp add: get_aptoide_app_def fetch_from_aptoide_def)

text \<open>
  C10, as the code has it. A negative integer is a present value for both formatters.
  The download formatter returns its decimal string, without a suffix, for every
  negative \<open>n\<close>. The size formatter returns that string followed by \<open>B\<close> for
  \<open>- 2 ^ 53 < n < 0\<close>, where the conversion to a float is exact; the loop never
  divides.
\<close>

theorem negative_counts:
  "(n < 0 \<longrightarrow> format_downloads (JInt n) = Inr (Some (str_int n)))
   \<and> (- (2 ^ 53) < n \<and> n < 0 \<longrightarrow> format_size (JInt n) = Inr (Some (str_int n @ '' B'')))"
proof -
  have 1: "format_downloads (JInt n) = Inr (Some (str_int n))" if "n < 0"
    using that by (simp add: format_downloads_def)
  have 2: "format_size (JInt n) = Inr (Some (str_int n @ '' B''))" if "- (2 ^ 53) < n" "n < 0"
  proof -
    have "\<bar>n\<bar> < 2 ^ 53" using that by simp
    then have "float_of_int n = Inr (of_int n)" by (rule float_of_int_exact)
    moreover have "(of_int n :: rat) < 1024" using that(2) by simp
    ultimately show ?thesis
      using that(2) fmt_f0_neg_int [of n] by (simp add: format_size_def)
  qed
  from 1 2 show ?thesis by blast
qed

theorem negative_counts_witness:
  "format_downloads (JInt (- 1500)) = Inr (Some ''-1500'')
   \<and> format_size (JInt (- 1500)) = Inr (Some ''-1500 B'')"
proof -
  have "str_int (- 1500) = ''-1500''" by code_simp
  then show ?thesis using negative_counts [of "- 1500"] by simp
qed

text \<open>
  The claim C10 as it was stated fails below \<open>- 2 ^ 53\<close>: \<open>float\<close> rounds
  \<open>- (2 ^ 53 + 1)\<close> to \<open>- 2 ^ 53\<close>, and the size formatter prints that number and
  not \<open>n\<close>.
\<close>

theorem format_size_negative_beyond_double_precision:
  "format_size (JInt (- 9007199254740993)) = Inr (Some ''-9007199254740992 B'')
   \<and> str_int (- 9007199254740993) @ '' B'' = ''-9007199254740993 B''"
  by code_simp

section \<open>A further property\<close>

text \<open>
  The conversion \<open>float(bytes_value)\<close> has no finite result for an integer of
  magnitude \<open>2 ^ 1024\<close> or more: on such a byte count the size formatter raises
  OverflowError instead of returning a string.
\<close>

theorem format_size_overflow:
  "2 ^ 1024 \<le> \<bar>n\<bar> \<longrightarrow> format_size (JInt n) = Inl OverflowError"
proof
  assume a: "2 ^ 1024 \<le> \<bar>n\<bar>"
  then have "n \<noteq> 0" by auto
  with float_of_int_overflow [OF a] show "format_size (JInt n) = Inl OverflowError"
    by (simp add: format_size_def)
qed

theorem format_size_overflow_witness:
  "format_size (JInt (2 ^ 1024)) = Inl OverflowError"
  using format_size_overflow [of "2 ^ 1024"] by simp

end
